theory Spec2Isabelle
  imports Main
begin

section \<open>Values of the extraction payload\<close>

text \<open>
  The functions of \<^verbatim>\<open>OCRUpload.jsx\<close> work on the JSON data the backend returns.
  A value is a tagged variant: the two absent values, a boolean, a number, a text, an
  ordered sequence, or a mapping. A mapping is kept as the list of its own properties
  in enumeration order (the order of \<^verbatim>\<open>Object.keys\<close>).

  Scope of the model: numbers are the integers (printed in plain decimal, as the
  language does below \<open>10^21\<close>); a text is a list of 8-bit code units.

  A mapping also answers to the member names it inherits from \<^verbatim>\<open>Object.prototype\<close>
  (\<^verbatim>\<open>constructor\<close>, \<^verbatim>\<open>toString\<close>, \<^verbatim>\<open>__proto__\<close>, ...). The merge of
  two records reads the working record under the field names of the incoming one, so such
  a read can meet an inherited member. The last variant stands for what is found there:
  the built-in function of that name, and under \<^verbatim>\<open>__proto__\<close> the prototype object
  itself.
\<close>

datatype jsval =
    Undefined
  | Null
  | Bool bool
  | Num int
  | Str string
  | Arr "jsval list"
  | Obj "(string \<times> jsval) list"
  | Inherited string

datatype error = TypeError

text \<open>Truthiness, as \<^verbatim>\<open>if (v)\<close>, \<^verbatim>\<open>!v\<close>, \<^verbatim>\<open>a || b\<close> and \<^verbatim>\<open>a && b\<close> test it.\<close>

fun truthy :: "jsval \<Rightarrow> bool" where
  "truthy Undefined = False"
| "truthy Null = False"
| "truthy (Bool b) = b"
| "truthy (Num n) = (n \<noteq> 0)"
| "truthy (Str s) = (s \<noteq> [])"
| "truthy (Arr xs) = True"
| "truthy (Obj ps) = True"
| "truthy (Inherited n) = True"

definition js_or :: "jsval \<Rightarrow> jsval \<Rightarrow> jsval" where
  "js_or a b = (if truthy a then a else b)"

text \<open>The operator \<^verbatim>\<open>a ?? b\<close>.\<close>

definition nullish :: "jsval \<Rightarrow> bool" where
  "nullish v = (v = Undefined \<or> v = Null)"

definition js_coalesce :: "jsval \<Rightarrow> jsval \<Rightarrow> jsval" where
  "js_coalesce a b = (if nullish a then b else a)"

fun isArray :: "jsval \<Rightarrow> bool" where
  "isArray (Arr xs) = True"
| "isArray v = False"

subsection \<open>Characters and text\<close>

definition is_digit :: "char \<Rightarrow> bool" where
  "is_digit c = (c \<in> set ''0123456789'')"




text \<open>
  The class \<^verbatim>\<open>\s\<close>, which is also what \<^verbatim>\<open>trim\<close> removes: tab, line feed,
  vertical tab, form feed, carriage return, space and the no-break space.
\<close>

definition is_ws :: "char \<Rightarrow> bool" where
  "is_ws c = (c \<in> {CHR 0x09, CHR 0x0A, CHR 0x0B, CHR 0x0C, CHR 0x0D, CHR 0x20, CHR 0xA0})"

definition trim :: "string \<Rightarrow> string" where
  "trim s = rev (dropWhile is_ws (rev (dropWhile is_ws s)))"

definition digit_char :: "nat \<Rightarrow> char" where
  "digit_char d = ''0123456789'' ! d"

function string_of_nat :: "nat \<Rightarrow> string" where
  "string_of_nat n =
     (if n < 10 then [digit_char n] else string_of_nat (n div 10) @ [digit_char (n mod 10)])"
  by pat_completeness auto
termination
  by (relation "measure id") auto

declare string_of_nat.simps [simp del]

definition string_of_int :: "int \<Rightarrow> string" where
  "string_of_int i = (if i < 0 then CHR ''-'' # string_of_nat (nat (- i)) else string_of_nat (nat i))"

fun join :: "string \<Rightarrow> string list \<Rightarrow> string" where
  "join sep [] = []"
| "join sep [x] = x"
| "join sep (x # y # ys) = x @ sep @ join sep (y # ys)"

text \<open>
  The text of an inherited member: the prototype object prints as any mapping does, a
  built-in function as its name between fixed words. The function found under
  \<^verbatim>\<open>constructor\<close> is named \<^verbatim>\<open>Object\<close>.
\<close>

definition native_text :: "string \<Rightarrow> string" where
  "native_text n =
     (if n = ''__proto__'' then ''[object Object]''
      else ''function '' @ (if n = ''constructor'' then ''Object'' else n) @ ''() { [native code] }'')"

text \<open>
  \<^verbatim>\<open>String(v)\<close> and \<^verbatim>\<open>v.toString()\<close>: a sequence is the comma-joined text of its
  elements, an absent element giving the empty text; a mapping is a fixed text.
\<close>

fun JString :: "jsval \<Rightarrow> string" where
  "JString Undefined = ''undefined''"
| "JString Null = ''null''"
| "JString (Bool b) = (if b then ''true'' else ''false'')"
| "JString (Num n) = string_of_int n"
| "JString (Str s) = s"
| "JString (Arr xs) = join '','' (map (\<lambda>x. if x = Undefined \<or> x = Null then [] else JString x) xs)"
| "JString (Obj ps) = ''[object Object]''"
| "JString (Inherited n) = native_text n"

text \<open>
  The conversion to text raises on a mapping that has an own field \<^verbatim>\<open>toString\<close>: the
  field holds data, which cannot be called, and the inherited \<^verbatim>\<open>valueOf\<close> gives no
  text either. A sequence converts each of its elements, so it raises when one of them
  does. \<open>JString\<close> is the text where the conversion does not raise.
\<close>

fun printable :: "jsval \<Rightarrow> bool" where
  "printable (Arr xs) = list_all printable xs"
| "printable (Obj ps) = (map_of ps ''toString'' = None)"
| "printable v = True"

subsection \<open>Properties of sequences, texts and mappings\<close>

definition digit_val :: "char \<Rightarrow> nat" where
  "digit_val c = of_char c - 48"

definition nat_of_digits :: "string \<Rightarrow> nat" where
  "nat_of_digits s = foldl (\<lambda>n c. 10 * n + digit_val c) 0 s"

text \<open>
  An array index is the canonical decimal text of a number below \<open>2^32 - 1\<close>. The
  properties with such names are enumerated first, in ascending numeric order; the
  others follow in the order they were added.
\<close>

definition array_index :: "string \<Rightarrow> nat option" where
  "array_index k =
     (if k \<noteq> [] \<and> list_all is_digit k \<and> (k = ''0'' \<or> hd k \<noteq> CHR ''0'')
         \<and> nat_of_digits k < 4294967295
      then Some (nat_of_digits k) else None)"

text \<open>
  The own enumerable properties, as \<^verbatim>\<open>Object.keys\<close>, \<^verbatim>\<open>Object.entries\<close>,
  \<^verbatim>\<open>Object.values\<close> and the spread \<^verbatim>\<open>{ ...p }\<close> see them: the fields of a
  mapping, the indexed elements of a sequence, the indexed characters of a text, and
  nothing for the other values.
\<close>

fun own_props :: "jsval \<Rightarrow> (string \<times> jsval) list" where
  "own_props (Obj ps) = ps"
| "own_props (Arr xs) = zip (map string_of_nat [0..<length xs]) xs"
| "own_props (Str s) = zip (map string_of_nat [0..<length s]) (map (\<lambda>c. Str [c]) s)"
| "own_props v = []"

text \<open>The names of the members of \<^verbatim>\<open>Object.prototype\<close>.\<close>

definition inherited_names :: "string list" where
  "inherited_names =
     [''constructor'', ''__defineGetter__'', ''__defineSetter__'', ''hasOwnProperty'',
      ''__lookupGetter__'', ''__lookupSetter__'', ''isPrototypeOf'', ''propertyIsEnumerable'',
      ''toString'', ''valueOf'', ''__proto__'', ''toLocaleString'']"

text \<open>
  Reading \<^verbatim>\<open>v[k]\<close> or \<^verbatim>\<open>v.k\<close> on a value that is neither \<^verbatim>\<open>null\<close> nor
  \<^verbatim>\<open>undefined\<close> (on those the read raises, which each caller writes out). An own
  property comes first; a mapping without it answers with the inherited member, when the
  name is one of those above. On a sequence or a text the source reads only the fixed data
  names it spells out and the keys \<^verbatim>\<open>Object.keys\<close> has just listed, none of which
  is inherited.
\<close>

definition get_prop :: "jsval \<Rightarrow> string \<Rightarrow> jsval" where
  "get_prop v k =
     (case map_of (own_props v) k of
        Some x \<Rightarrow> x
      | None \<Rightarrow> (case v of
                  Obj ps \<Rightarrow> if k \<in> set inherited_names then Inherited k else Undefined
                | _ \<Rightarrow> Undefined))"

fun insert_index :: "nat \<Rightarrow> string \<Rightarrow> 'a \<Rightarrow> (string \<times> 'a) list \<Rightarrow> (string \<times> 'a) list" where
  "insert_index i k v [] = [(k, v)]"
| "insert_index i k v ((k', v') # ps) =
     (case array_index k' of
        Some j \<Rightarrow> if j < i then (k', v') # insert_index i k v ps else (k, v) # (k', v') # ps
      | None \<Rightarrow> (k, v) # (k', v') # ps)"

fun replace_prop :: "string \<Rightarrow> 'a \<Rightarrow> (string \<times> 'a) list \<Rightarrow> (string \<times> 'a) list" where
  "replace_prop k v [] = []"
| "replace_prop k v ((k', v') # ps) =
     (if k' = k then (k, v) # ps else (k', v') # replace_prop k v ps)"

text \<open>
  Defining the own property \<open>k\<close> of a mapping, as the spread \<^verbatim>\<open>{ ...p }\<close> does for
  each property it copies: an existing field keeps its place, a new one is added where
  the enumeration order puts it.
\<close>

definition define_prop :: "(string \<times> 'a) list \<Rightarrow> string \<Rightarrow> 'a \<Rightarrow> (string \<times> 'a) list" where
  "define_prop ps k v =
     (if map_of ps k \<noteq> None then replace_prop k v ps
      else (case array_index k of Some i \<Rightarrow> insert_index i k v ps | None \<Rightarrow> ps @ [(k, v)]))"

text \<open>
  The assignment \<^verbatim>\<open>o[k] = v\<close> on a mapping defines the own property, with one
  exception: on a mapping that has no own property \<^verbatim>\<open>__proto__\<close> the assignment to
  that name goes to the inherited setter, which replaces the prototype (or does nothing,
  for a value that is no object) and adds no property. The list of own properties is
  then unchanged. The model does not follow the new prototype, which would show only in
  later reads of inherited names.
\<close>

definition set_prop :: "(string \<times> 'a) list \<Rightarrow> string \<Rightarrow> 'a \<Rightarrow> (string \<times> 'a) list" where
  "set_prop ps k v =
     (if k = ''__proto__'' \<and> map_of ps k = None then ps else define_prop ps k v)"

section \<open>FeeStringRepair: \<^verbatim>\<open>_cleanFeeString\<close>\<close>

text \<open>\<^verbatim>\<open>raw.replace(/\s+/g, " ")\<close>: every run of whitespace becomes one space.\<close>

function collapse_ws :: "string \<Rightarrow> string" where
  "collapse_ws [] = []"
| "collapse_ws (c # cs) =
     (if is_ws c then CHR '' '' # collapse_ws (dropWhile is_ws cs) else c # collapse_ws cs)"
  by pat_completeness auto
termination
  by (relation "measure length") (auto simp: length_dropWhile_le le_imp_less_Suc)

text \<open>\<^verbatim>\<open>raw.replace(/^[\|\[\(]+/, "")\<close>: the leading run of pipe, bracket, parenthesis.\<close>

definition is_lead_noise :: "char \<Rightarrow> bool" where
  "is_lead_noise c = (c = CHR ''|'' \<or> c = CHR ''['' \<or> c = CHR ''('')"

definition strip_lead_noise :: "string \<Rightarrow> string" where
  "strip_lead_noise s = dropWhile is_lead_noise s"

text \<open>The tail \<^verbatim>\<open>\d{2}\.\d{2}$\<close>: exactly two digits, a dot, two digits, then the end.\<close>

fun is_money_tail :: "string \<Rightarrow> bool" where
  "is_money_tail [a, b, c, d, e] =
     (is_digit a \<and> is_digit b \<and> c = CHR ''.'' \<and> is_digit d \<and> is_digit e)"
| "is_money_tail s = False"

text \<open>
  \<^verbatim>\<open>raw.replace(/(\d)\s+(\d{2}\.\d{2})$/, "$1$2")\<close>: the leftmost digit that is
  followed by whitespace and then by the tail up to the end loses that whitespace. The
  greedy \<^verbatim>\<open>\s+\<close> takes the whole run: after a shorter run the next character is
  whitespace, not a digit.
\<close>

definition split_tail_follows :: "char \<Rightarrow> string \<Rightarrow> bool" where
  "split_tail_follows c cs =
     (is_digit c \<and> cs \<noteq> [] \<and> is_ws (hd cs) \<and> is_money_tail (dropWhile is_ws cs))"

fun join_split_digit :: "string \<Rightarrow> string" where
  "join_split_digit [] = []"
| "join_split_digit (c # cs) =
     (if split_tail_follows c cs then c # dropWhile is_ws cs else c # join_split_digit cs)"

text \<open>The tail \<^verbatim>\<open>\.\d{2}$\<close> after the start or after the zeros.\<close>

fun is_dot2 :: "string \<Rightarrow> bool" where
  "is_dot2 [c, d, e] = (c = CHR ''.'' \<and> is_digit d \<and> is_digit e)"
| "is_dot2 s = False"

text \<open>\<^verbatim>\<open>raw.replace(/^0+(\.\d{2})$/, "0$1")\<close>.\<close>

definition collapse_zeros :: "string \<Rightarrow> string" where
  "collapse_zeros s =
     (let zs = takeWhile (\<lambda>c. c = CHR ''0'') s; t = dropWhile (\<lambda>c. c = CHR ''0'') s
      in if zs \<noteq> [] \<and> is_dot2 t then CHR ''0'' # t else s)"

text \<open>\<^verbatim>\<open>/^\d+$/.test(raw)\<close>.\<close>

definition all_digits :: "string \<Rightarrow> bool" where
  "all_digits s = (s \<noteq> [] \<and> list_all is_digit s)"

text \<open>\<^verbatim>\<open>/^\d+(\.\d+)?$/.test(raw)\<close>.\<close>

definition is_decimal :: "string \<Rightarrow> bool" where
  "is_decimal s =
     (let ds = takeWhile is_digit s; t = dropWhile is_digit s
      in ds \<noteq> [] \<and> (t = [] \<or> (hd t = CHR ''.'' \<and> all_digits (tl t))))"

text \<open>\<^verbatim>\<open>/\.\d{2}$/.test(raw)\<close>: the last three characters are a dot and two digits.\<close>

definition ends_dot2 :: "string \<Rightarrow> bool" where
  "ends_dot2 s = (3 \<le> length s \<and> is_dot2 (drop (length s - 3) s))"

text \<open>\<^verbatim>\<open>raw.split(".")\<close>.\<close>

fun split_dot :: "string \<Rightarrow> string list" where
  "split_dot [] = [[]]"
| "split_dot (c # cs) =
     (if c = CHR ''.'' then [] # split_dot cs
      else (case split_dot cs of p # ps \<Rightarrow> (c # p) # ps | [] \<Rightarrow> [[c]]))"

text \<open>The two last rules of the function, on the text the first rules leave.\<close>

definition insert_decimals :: "string \<Rightarrow> string" where
  "insert_decimals raw =
     (if all_digits raw \<and> length raw > 2
      then take (length raw - 2) raw @ ''.'' @ drop (length raw - 2) raw
      else raw)"

definition pad_decimals :: "string \<Rightarrow> string" where
  "pad_decimals raw =
     (if is_decimal raw \<and> \<not> ends_dot2 raw
      then (let parts = split_dot raw
            in if length parts = 1 then raw @ ''.00''
               else if length (parts ! 1) = 1 then raw @ ''0''
               else raw)
      else raw)"

text \<open>The rules from the whitespace collapse on, applied to the trimmed, non-empty text.\<close>

definition repair_text :: "string \<Rightarrow> string" where
  "repair_text raw =
     pad_decimals (insert_decimals (collapse_zeros (join_split_digit
       (strip_lead_noise (collapse_ws raw)))))"

definition cleanFeeString :: "jsval \<Rightarrow> string" where
  "cleanFeeString s =
     (if s = Undefined \<or> s = Null then []
      else (let raw = trim (JString s)
            in if raw = [] then [] else repair_text raw))"

subsection \<open>Two shapes of a repaired text\<close>

text \<open>
  The text starts with whitespace; and the text is two or more zeros, a dot and two
  digits. They describe the outputs on which a second repair still changes something.
\<close>

definition leading_ws :: "string \<Rightarrow> bool" where
  "leading_ws r = (r \<noteq> [] \<and> is_ws (hd r))"

definition surplus_zeros :: "string \<Rightarrow> bool" where
  "surplus_zeros r =
     (2 \<le> length (takeWhile (\<lambda>c. c = CHR ''0'') r) \<and> is_dot2 (dropWhile (\<lambda>c. c = CHR ''0'') r))"

text \<open>A text in which every whitespace character is one space between two others.\<close>

fun squeezed :: "string \<Rightarrow> bool" where
  "squeezed [] = True"
| "squeezed (c # cs) =
     ((if is_ws c then c = CHR '' '' \<and> (cs = [] \<or> \<not> is_ws (hd cs)) else True) \<and> squeezed cs)"

section \<open>RowNormalizer, diagnosis variant: \<^verbatim>\<open>normalizeDiagRow\<close>\<close>

text \<open>
  The function returns the three components as it computes them: in the sequence branch
  they are the elements themselves, of whatever kind.
\<close>

definition normalizeDiagRow :: "jsval \<Rightarrow> jsval list" where
  "normalizeDiagRow r =
     (if \<not> truthy r then [Str ''ICD-10'', Str [], Str []]
      else if isArray r then
        [js_coalesce (get_prop r ''0'') (Str ''ICD-10''),
         js_coalesce (get_prop r ''1'') (Str []),
         js_coalesce (get_prop r ''2'') (Str [])]
      else
        (let typ = js_coalesce (js_coalesce (js_coalesce (get_prop r ''Type'') (get_prop r ''type''))
                     (get_prop r ''0'')) (Str ''ICD-10'');
             code = js_coalesce (js_coalesce (js_coalesce (get_prop r ''Code'') (get_prop r ''code''))
                     (get_prop r ''1'')) (Str []);
             diag = js_coalesce (js_coalesce (js_coalesce (js_coalesce (js_coalesce
                     (get_prop r ''Diagnosis'') (get_prop r ''diagnosis''))
                     (get_prop r ''Description'')) (get_prop r ''description''))
                     (get_prop r ''2'')) (Str [])
         in [typ, Str (trim (JString code)), Str (trim (JString diag))]))"

section \<open>TableShapeNormalizer: \<^verbatim>\<open>normalizeTables\<close>\<close>

text \<open>
  \<^verbatim>\<open>Number(k)\<close> on a key, \<open>None\<close> standing for \<^verbatim>\<open>NaN\<close>: surrounding whitespace is
  dropped, the empty text is 0, and an optional sign with decimal digits is that
  integer. Fractions, exponents, radix prefixes and \<^verbatim>\<open>Infinity\<close> are outside the
  integers of this model and count as not numeric.
\<close>

definition Number :: "string \<Rightarrow> int option" where
  "Number k =
     (let t = trim k in
      if t = [] then Some 0
      else if all_digits t then Some (int (nat_of_digits t))
      else if hd t = CHR ''+'' \<and> all_digits (tl t) then Some (int (nat_of_digits (tl t)))
      else if hd t = CHR ''-'' \<and> all_digits (tl t) then Some (- int (nat_of_digits (tl t)))
      else None)"

text \<open>
  \<^verbatim>\<open>a.localeCompare(b)\<close>, taken as the comparison of the code units from left to
  right; the collation rules of the host's locale are outside the model.
\<close>

fun localeCompare :: "string \<Rightarrow> string \<Rightarrow> int" where
  "localeCompare [] [] = 0"
| "localeCompare [] (d # ds) = - 1"
| "localeCompare (c # cs) [] = 1"
| "localeCompare (c # cs) (d # ds) =
     (if c = d then localeCompare cs ds
      else if (of_char c :: nat) < of_char d then - 1 else 1)"

text \<open>The comparator given to \<^verbatim>\<open>sort\<close>.\<close>

definition key_compare :: "string \<Rightarrow> string \<Rightarrow> int" where
  "key_compare a b =
     (case (Number a, Number b) of
        (Some na, Some nb) \<Rightarrow> na - nb
      | _ \<Rightarrow> localeCompare a b)"

text \<open>
  \<^verbatim>\<open>keys.sort(cmp)\<close> is a stable sort: an element moves in front of another only
  when the comparator puts it strictly before.
\<close>

fun insert_key :: "string \<Rightarrow> string list \<Rightarrow> string list" where
  "insert_key a [] = [a]"
| "insert_key a (b # bs) = (if key_compare a b \<le> 0 then a # b # bs else b # insert_key a bs)"

definition sort_keys :: "string list \<Rightarrow> string list" where
  "sort_keys ks = foldr insert_key ks []"

text \<open>
  What one entry \<^verbatim>\<open>[sec, rows]\<close> stores under its section name. The test
  \<^verbatim>\<open>typeof rows === "object"\<close> holds for a mapping and for the prototype object,
  which has no enumerable key.
\<close>

definition section_rows :: "jsval \<Rightarrow> jsval" where
  "section_rows rows =
     (if rows = Null \<or> rows = Undefined then Arr []
      else if isArray rows then rows
      else (case rows of
              Obj ps \<Rightarrow> Arr (map (\<lambda>k. get_prop rows k) (sort_keys (map fst ps)))
            | Inherited n \<Rightarrow> if n = ''__proto__'' then Arr [] else Arr [rows]
            | _ \<Rightarrow> Arr [rows]))"

definition normalizeTables :: "jsval \<Rightarrow> jsval" where
  "normalizeTables tables =
     (if \<not> truthy tables then Obj []
      else if isArray tables then Obj (set_prop [] ''Procedures'' tables)
      else Obj (foldl (\<lambda>out (sec, rows). set_prop out sec (section_rows rows)) []
                  (own_props tables)))"

section \<open>PatientReconciler: \<^verbatim>\<open>dedupeAndMergePatients\<close>\<close>

subsection \<open>The fingerprint \<^verbatim>\<open>JSON.stringify(p)\<close>\<close>

definition hex_char :: "nat \<Rightarrow> char" where
  "hex_char d = ''0123456789abcdef'' ! d"

definition json_escape :: "char \<Rightarrow> string" where
  "json_escape c =
     (if c = CHR 0x22 then [CHR 0x5C, CHR 0x22]
      else if c = CHR 0x5C then [CHR 0x5C, CHR 0x5C]
      else if c = CHR 0x08 then [CHR 0x5C, CHR ''b'']
      else if c = CHR 0x0C then [CHR 0x5C, CHR ''f'']
      else if c = CHR 0x0A then [CHR 0x5C, CHR ''n'']
      else if c = CHR 0x0D then [CHR 0x5C, CHR ''r'']
      else if c = CHR 0x09 then [CHR 0x5C, CHR ''t'']
      else if (of_char c :: nat) < 32
        then [CHR 0x5C, CHR ''u'', CHR ''0'', CHR ''0'',
              hex_char (of_char c div 16), hex_char (of_char c mod 16)]
      else [c])"

definition json_quote :: "string \<Rightarrow> string" where
  "json_quote s = [CHR 0x22] @ concat (map json_escape s) @ [CHR 0x22]"

text \<open>
  Inside a sequence an \<^verbatim>\<open>undefined\<close> element or a function prints as
  \<^verbatim>\<open>null\<close>; a field whose value is \<^verbatim>\<open>undefined\<close> or a function is left out.
  The function is only applied to a record that has been read before, so never to
  \<^verbatim>\<open>undefined\<close> itself.
\<close>

fun json_omitted :: "jsval \<Rightarrow> bool" where
  "json_omitted Undefined = True"
| "json_omitted (Inherited n) = (n \<noteq> ''__proto__'')"
| "json_omitted v = False"

fun json_stringify :: "jsval \<Rightarrow> string" where
  "json_stringify Undefined = ''null''"
| "json_stringify Null = ''null''"
| "json_stringify (Bool b) = (if b then ''true'' else ''false'')"
| "json_stringify (Num n) = string_of_int n"
| "json_stringify (Str s) = json_quote s"
| "json_stringify (Arr xs) = ''['' @ join '','' (map json_stringify xs) @ '']''"
| "json_stringify (Obj ps) =
     ''{'' @ join '','' (map (\<lambda>kv. json_quote (fst kv) @ '':'' @ json_stringify (snd kv))
                          (filter (\<lambda>kv. \<not> json_omitted (snd kv)) ps)) @ ''}''"
| "json_stringify (Inherited n) = (if n = ''__proto__'' then ''{}'' else ''null'')"

subsection \<open>The identity key\<close>

text \<open>
  The key is made of two texts, \<^verbatim>\<open>(p["Patient Name"] || p["Patient"] || "").toString()\<close>
  and the like for the subscriber, both made before either is looked at. The call
  \<^verbatim>\<open>toString()\<close> raises where the conversion to text does, and then there is no key.
\<close>

definition patientKey :: "jsval \<Rightarrow> error + string" where
  "patientKey p =
     (let nameValue = js_or (js_or (get_prop p ''Patient Name'') (get_prop p ''Patient'')) (Str []);
          subValue = js_or (js_or (js_or (get_prop p ''Subscriber ID'')
                       (get_prop p ''SubscriberId'')) (get_prop p ''Subscriber'')) (Str [])
      in if \<not> printable nameValue \<or> \<not> printable subValue then Inl TypeError
         else (let name = trim (JString nameValue); sub = trim (JString subValue)
               in Inr (if name \<noteq> [] then name
                       else if sub \<noteq> [] then sub
                       else take 80 (json_stringify p))))"

subsection \<open>First sight of a key: the clone\<close>

text \<open>The spread \<^verbatim>\<open>{ ...p }\<close>: a new mapping that receives the own properties in order.\<close>

definition spread :: "jsval \<Rightarrow> (string \<times> jsval) list" where
  "spread p = foldl (\<lambda>out (k, v). define_prop out k v) [] (own_props p)"

text \<open>
  \<^verbatim>\<open>if (clone[k] && !Array.isArray(clone[k])) clone[k] = [clone[k]]\<close>, which the
  source writes for two field names.
\<close>

definition wrap_scalar :: "string \<Rightarrow> (string \<times> jsval) list \<Rightarrow> (string \<times> jsval) list" where
  "wrap_scalar k clone =
     (let v = get_prop (Obj clone) k
      in if truthy v \<and> \<not> isArray v then set_prop clone k (Arr [v]) else clone)"

definition clonePatient :: "jsval \<Rightarrow> (string \<times> jsval) list" where
  "clonePatient p =
     wrap_scalar ''Diagnosis (All Tables)''
       (wrap_scalar ''Procedure / Billing (All Tables)'' (spread p))"

subsection \<open>A key seen before: the merge\<close>

definition is_blank :: "jsval \<Rightarrow> bool" where
  "is_blank v = (v = Undefined \<or> v = Null \<or> v = Str ''NIL'' \<or> v = Str [])"

fun elems :: "jsval \<Rightarrow> jsval list" where
  "elems (Arr xs) = xs"
| "elems v = []"

text \<open>One round of the loop \<^verbatim>\<open>for (const k of Object.keys(p))\<close>.\<close>

definition mergeField :: "jsval \<Rightarrow> (string \<times> jsval) list \<Rightarrow> string \<Rightarrow> (string \<times> jsval) list" where
  "mergeField p existing k =
     (let val = get_prop p k; old = get_prop (Obj existing) k
      in if is_blank old \<and> truthy val then set_prop existing k val
         else if isArray old \<and> isArray val then set_prop existing k (Arr (elems old @ elems val))
         else if isArray old \<and> truthy val \<and> \<not> isArray val
           then set_prop existing k (Arr (elems old @ [val]))
         else if \<not> isArray old \<and> isArray val
           then set_prop existing k (Arr ((if truthy old then [old] else []) @ elems val))
         else existing)"

definition mergeInto :: "(string \<times> jsval) list \<Rightarrow> jsval \<Rightarrow> (string \<times> jsval) list" where
  "mergeInto existing p = foldl (mergeField p) existing (map fst (own_props p))"

subsection \<open>Notions used to state what a merge keeps\<close>




subsection \<open>The loop over the raw records\<close>

text \<open>
  The \<^verbatim>\<open>Map\<close> from key to working record, in insertion order. Reading a field of
  \<^verbatim>\<open>null\<close> or \<^verbatim>\<open>undefined\<close> raises, so such an element of the sequence ends the
  call with the error.
\<close>

type_synonym patient_map = "(string \<times> (string \<times> jsval) list) list"

fun map_replace :: "string \<Rightarrow> (string \<times> jsval) list \<Rightarrow> patient_map \<Rightarrow> patient_map" where
  "map_replace key r [] = []"
| "map_replace key r ((key', r') # m) =
     (if key' = key then (key, r) # m else (key', r') # map_replace key r m)"

definition dedupeStep :: "patient_map \<Rightarrow> jsval \<Rightarrow> error + patient_map" where
  "dedupeStep m p =
     (if nullish p then Inl TypeError
      else (case patientKey p of
              Inl e \<Rightarrow> Inl e
            | Inr key \<Rightarrow>
                (case map_of m key of
                   None \<Rightarrow> Inr (m @ [(key, clonePatient p)])
                 | Some existing \<Rightarrow> Inr (map_replace key (mergeInto existing p) m))))"

fun dedupeLoop :: "patient_map \<Rightarrow> jsval list \<Rightarrow> error + patient_map" where
  "dedupeLoop m [] = Inr m"
| "dedupeLoop m (p # ps) =
     (case dedupeStep m p of Inl e \<Rightarrow> Inl e | Inr m' \<Rightarrow> dedupeLoop m' ps)"

definition dedupeAndMergePatients :: "jsval \<Rightarrow> error + jsval list" where
  "dedupeAndMergePatients patients =
     (case patients of
        Arr ps \<Rightarrow> (case dedupeLoop [] ps of
                     Inl e \<Rightarrow> Inl e
                   | Inr m \<Rightarrow> Inr (map (\<lambda>kr. Obj (snd kr)) m))
      | _ \<Rightarrow> Inr [])"

section \<open>CodeHighlighter: the token scan of \<^verbatim>\<open>PatientBlock\<close>\<close>













section \<open>ResultAssembler: \<^verbatim>\<open>buildItemFromResponse\<close> and \<^verbatim>\<open>ResultBlock\<close>\<close>

fun map_rows :: "(jsval \<Rightarrow> error + jsval) \<Rightarrow> jsval list \<Rightarrow> error + jsval list" where
  "map_rows f [] = Inr []"
| "map_rows f (r # rs) =
     (case f r of
        Inl e \<Rightarrow> Inl e
      | Inr y \<Rightarrow> (case map_rows f rs of Inl e \<Rightarrow> Inl e | Inr ys \<Rightarrow> Inr (y # ys)))"

text \<open>
  The two callbacks of the older shapes. A row that is \<^verbatim>\<open>null\<close> or
  \<^verbatim>\<open>undefined\<close> is not a sequence, so its fields are read, which raises.
\<close>

definition legacyProcRow :: "jsval \<Rightarrow> error + jsval" where
  "legacyProcRow r =
     (if isArray r then Inr r
      else if nullish r then Inl TypeError
      else Inr (Arr [js_coalesce (js_coalesce (get_prop r ''Code'') (get_prop r ''code'')) (Str []),
                     js_coalesce (js_coalesce (get_prop r ''Description'') (get_prop r ''description''))
                       (Str []),
                     js_coalesce (js_coalesce (get_prop r ''Fee'') (get_prop r ''fee'')) (Str [])]))"

definition legacyDiagRow :: "jsval \<Rightarrow> error + jsval" where
  "legacyDiagRow d =
     (if isArray d then Inr d
      else if nullish d then Inl TypeError
      else Inr (Arr [js_coalesce (js_coalesce (get_prop d ''Type'') (get_prop d ''type''))
                       (Str ''ICD-10''),
                     js_coalesce (js_coalesce (get_prop d ''Code'') (get_prop d ''code'')) (Str []),
                     js_coalesce (js_coalesce (js_coalesce (js_coalesce (get_prop d ''Diagnosis'')
                       (get_prop d ''diagnosis'')) (get_prop d ''Description''))
                       (get_prop d ''description'')) (Str [])]))"

definition legacyRows :: "(jsval \<Rightarrow> error + jsval) \<Rightarrow> jsval \<Rightarrow> error + jsval" where
  "legacyRows f codes =
     (case codes of
        Arr rs \<Rightarrow> (case map_rows f rs of Inl e \<Rightarrow> Inl e | Inr ys \<Rightarrow> Inr (Arr ys))
      | _ \<Rightarrow> Inr (Arr []))"

definition make_item :: "jsval \<Rightarrow> jsval \<Rightarrow> jsval \<Rightarrow> jsval \<Rightarrow> jsval \<Rightarrow> jsval" where
  "make_item fname pats procs diags meta =
     Obj [(''file_name'', fname), (''patients'', pats), (''procedure_tables'', procs),
          (''diagnosis_tables'', diags), (''metadata'', meta)]"

text \<open>
  The last branch writes \<^verbatim>\<open>meta["File Name"]\<close> when it is missing. The module is
  strict code, so the write raises when \<open>meta\<close> is a text, a number or a boolean. On a
  sequence or a built-in object the write adds a named property, which no later step
  reads and the model does not keep.
\<close>

definition fallbackItem :: "jsval \<Rightarrow> string \<Rightarrow> error + jsval" where
  "fallbackItem resData fileName =
     (let meta = js_or (get_prop resData ''metadata'') resData
      in if truthy (get_prop meta ''File Name'')
         then Inr (make_item (get_prop meta ''File Name'') (Arr []) (Obj []) (Obj []) meta)
         else (case meta of
                 Obj ps \<Rightarrow> Inr (make_item (Str fileName) (Arr []) (Obj []) (Obj [])
                                  (Obj (set_prop ps ''File Name'' (Str fileName))))
               | Arr xs \<Rightarrow> Inr (make_item (Str fileName) (Arr []) (Obj []) (Obj []) meta)
               | Inherited n \<Rightarrow> Inr (make_item (Str fileName) (Arr []) (Obj []) (Obj []) meta)
               | _ \<Rightarrow> Inl TypeError))"

definition buildItemFromResponse :: "jsval \<Rightarrow> string \<Rightarrow> error + jsval" where
  "buildItemFromResponse resData fileName =
     (if \<not> truthy resData
      then Inr (make_item (Str fileName) (Arr []) (Obj []) (Obj []) (Obj []))
      else if truthy (js_or (js_or (get_prop resData ''patients'') (get_prop resData ''procedure_tables''))
                 (get_prop resData ''diagnosis_tables''))
      then Inr (make_item
             (js_or (js_or (get_prop resData ''file_name'') (get_prop resData ''filename'')) (Str fileName))
             (if isArray (get_prop resData ''patients'') then get_prop resData ''patients'' else Arr [])
             (js_or (js_or (get_prop resData ''procedure_tables'') (get_prop resData ''procedureTables''))
                (Obj []))
             (js_or (js_or (get_prop resData ''diagnosis_tables'') (get_prop resData ''diagnosisTables''))
                (Obj []))
             (js_or (get_prop resData ''metadata'') (Obj [])))
      else if truthy (js_or (get_prop resData ''medical_billing_codes'') (get_prop resData ''diagnosis_codes''))
      then (case legacyRows legacyProcRow (get_prop resData ''medical_billing_codes'') of
              Inl e \<Rightarrow> Inl e
            | Inr procedures \<Rightarrow>
                (case legacyRows legacyDiagRow (get_prop resData ''diagnosis_codes'') of
                   Inl e \<Rightarrow> Inl e
                 | Inr diags \<Rightarrow>
                     Inr (make_item
                       (js_or (js_or (get_prop resData ''file_name'') (get_prop resData ''filename''))
                          (Str fileName))
                       (if isArray (get_prop resData ''patients'') then get_prop resData ''patients''
                        else Arr [])
                       (Obj [(''Procedures'', procedures)])
                       (Obj [(''Diagnosis'', diags)])
                       (js_or (get_prop resData ''metadata'') (Obj [])))))
      else fallbackItem resData fileName)"

text \<open>
  What \<^verbatim>\<open>ResultBlock\<close> computes from an item before it renders: the title, the
  reconciled patients and the two table sets, with the item's metadata beside them.
\<close>

record extraction_result =
  er_fileName :: jsval
  er_patients :: "jsval list"
  er_procedureTables :: jsval
  er_diagnosisTables :: jsval
  er_metadata :: jsval

definition flat_fallback :: "jsval \<Rightarrow> string \<Rightarrow> jsval \<Rightarrow> jsval" where
  "flat_fallback normalized name codes =
     (if length (own_props normalized) = 0 \<and> isArray codes \<and> elems codes \<noteq> []
      then Obj [(name, codes)] else normalized)"

definition ResultBlock :: "jsval \<Rightarrow> error + extraction_result" where
  "ResultBlock item =
     (let rawPatients =
            (if isArray (get_prop item ''patients'') then get_prop item ''patients''
             else if isArray (get_prop item ''patients_list'') then get_prop item ''patients_list''
             else Arr []);
          procedureTables = js_or (js_or (js_or (get_prop item ''procedure_tables'')
              (get_prop item ''procedureTables'')) (get_prop item ''medical_billing_codes'')) (Obj []);
          diagnosisTables = js_or (js_or (js_or (get_prop item ''diagnosis_tables'')
              (get_prop item ''diagnosisTables'')) (get_prop item ''diagnosis_codes'')) (Obj []);
          procTablesMutable = flat_fallback (normalizeTables procedureTables) ''Procedures''
              (get_prop item ''medical_billing_codes'');
          diagTablesMutable = flat_fallback (normalizeTables diagnosisTables) ''Diagnosis''
              (get_prop item ''diagnosis_codes'')
      in case dedupeAndMergePatients rawPatients of
           Inl e \<Rightarrow> Inl e
         | Inr ps \<Rightarrow>
             Inr \<lparr> er_fileName = js_or (js_or (get_prop item ''file_name'')
                                    (get_prop item ''filename'')) (Str ''Uploaded file''),
                   er_patients = ps,
                   er_procedureTables = procTablesMutable,
                   er_diagnosisTables = diagTablesMutable,
                   er_metadata = get_prop item ''metadata'' \<rparr>)"

text \<open>The transform of one response: the item is built, then shown by \<^verbatim>\<open>ResultBlock\<close>.\<close>

definition assembleResult :: "jsval \<Rightarrow> string \<Rightarrow> error + extraction_result" where
  "assembleResult resData fileName =
     (case buildItemFromResponse resData fileName of
        Inl e \<Rightarrow> Inl e
      | Inr item \<Rightarrow> ResultBlock item)"

section \<open>PatientReconciler on a store\<close>

text \<open>
  Whether the reconciliation changes its input, and what its result shares with it, is
  a question about objects, not about values. Here sequences and mappings live in a
  store, a value refers to them by address, and a new object gets the next free
  address. The function is the same \<^verbatim>\<open>dedupeAndMergePatients\<close>, with every creation
  of an object and every assignment to a field written out.
\<close>

type_synonym addr = nat

datatype hval =
    HUndefined
  | HNull
  | HBool bool
  | HNum int
  | HStr string
  | HRef addr
  | HInherited string

datatype cell =
    ArrCell "hval list"
  | ObjCell "(string \<times> hval) list"

type_synonym store = "cell list"

definition alloc :: "store \<Rightarrow> cell \<Rightarrow> store \<times> addr" where
  "alloc h c = (h @ [c], length h)"

text \<open>
  The value a reference stands for, read back from the store. The counter bounds the
  depth: a store made from JSON is a forest, no deeper than it has cells.
\<close>

fun reify :: "nat \<Rightarrow> store \<Rightarrow> hval \<Rightarrow> jsval" where
  "reify n h HUndefined = Undefined"
| "reify n h HNull = Null"
| "reify n h (HBool b) = Bool b"
| "reify n h (HNum i) = Num i"
| "reify n h (HStr s) = Str s"
| "reify 0 h (HRef a) = Undefined"
| "reify (Suc n) h (HRef a) =
     (if a < length h
      then (case h ! a of
              ArrCell xs \<Rightarrow> Arr (map (reify n h) xs)
            | ObjCell ps \<Rightarrow> Obj (map (\<lambda>kv. (fst kv, reify n h (snd kv))) ps))
      else Undefined)"
| "reify n h (HInherited k) = Inherited k"

fun h_truthy :: "hval \<Rightarrow> bool" where
  "h_truthy HUndefined = False"
| "h_truthy HNull = False"
| "h_truthy (HBool b) = b"
| "h_truthy (HNum n) = (n \<noteq> 0)"
| "h_truthy (HStr s) = (s \<noteq> [])"
| "h_truthy (HRef a) = True"
| "h_truthy (HInherited k) = True"

definition h_isArray :: "store \<Rightarrow> hval \<Rightarrow> bool" where
  "h_isArray h v =
     (case v of
        HRef a \<Rightarrow> a < length h \<and> (case h ! a of ArrCell xs \<Rightarrow> True | ObjCell ps \<Rightarrow> False)
      | _ \<Rightarrow> False)"

definition h_elems :: "store \<Rightarrow> hval \<Rightarrow> hval list" where
  "h_elems h v =
     (case v of
        HRef a \<Rightarrow> (if a < length h then (case h ! a of ArrCell xs \<Rightarrow> xs | ObjCell ps \<Rightarrow> []) else [])
      | _ \<Rightarrow> [])"

definition h_own_props :: "store \<Rightarrow> hval \<Rightarrow> (string \<times> hval) list" where
  "h_own_props h v =
     (case v of
        HRef a \<Rightarrow>
          (if a < length h
           then (case h ! a of
                   ObjCell ps \<Rightarrow> ps
                 | ArrCell xs \<Rightarrow> zip (map string_of_nat [0..<length xs]) xs)
           else [])
      | HStr s \<Rightarrow> zip (map string_of_nat [0..<length s]) (map (\<lambda>c. HStr [c]) s)
      | _ \<Rightarrow> [])"

text \<open>A read, with the inherited members of a mapping as in \<open>get_prop\<close>.\<close>

definition h_is_mapping :: "store \<Rightarrow> hval \<Rightarrow> bool" where
  "h_is_mapping h v =
     (case v of
        HRef a \<Rightarrow> a < length h \<and> (case h ! a of ArrCell xs \<Rightarrow> False | ObjCell ps \<Rightarrow> True)
      | _ \<Rightarrow> False)"

definition h_get :: "store \<Rightarrow> hval \<Rightarrow> string \<Rightarrow> hval" where
  "h_get h v k =
     (case map_of (h_own_props h v) k of
        Some x \<Rightarrow> x
      | None \<Rightarrow> if h_is_mapping h v \<and> k \<in> set inherited_names then HInherited k else HUndefined)"

text \<open>The assignment \<^verbatim>\<open>o[k] = v\<close> to the mapping at address \<open>c\<close>.\<close>

definition h_set :: "store \<Rightarrow> addr \<Rightarrow> string \<Rightarrow> hval \<Rightarrow> store" where
  "h_set h c k v =
     (case h ! c of
        ObjCell ps \<Rightarrow> h[c := ObjCell (set_prop ps k v)]
      | ArrCell xs \<Rightarrow> h)"

text \<open>The key reads the record and writes nothing.\<close>

definition h_patientKey :: "store \<Rightarrow> hval \<Rightarrow> error + string" where
  "h_patientKey h p = patientKey (reify (length h) h p)"

text \<open>
  \<^verbatim>\<open>if (clone[k] && !Array.isArray(clone[k])) clone[k] = [clone[k]]\<close>: the one-element
  sequence is a new object.
\<close>

definition h_wrap_scalar :: "string \<Rightarrow> addr \<Rightarrow> store \<Rightarrow> store" where
  "h_wrap_scalar k c h =
     (let v = h_get h (HRef c) k
      in if h_truthy v \<and> \<not> h_isArray h v
         then (let (h', a) = alloc h (ArrCell [v]) in h_set h' c k (HRef a))
         else h)"

text \<open>
  The clone \<^verbatim>\<open>{ ...p }\<close> is a new mapping; its fields receive the values of \<open>p\<close> as
  they are, a reference staying the same reference.
\<close>

definition h_clonePatient :: "store \<Rightarrow> hval \<Rightarrow> store \<times> addr" where
  "h_clonePatient h p =
     (let (h1, c) = alloc h (ObjCell (foldl (\<lambda>out (k, v). define_prop out k v) [] (h_own_props h p)))
      in (h_wrap_scalar ''Diagnosis (All Tables)'' c
            (h_wrap_scalar ''Procedure / Billing (All Tables)'' c h1), c))"

definition h_is_blank :: "hval \<Rightarrow> bool" where
  "h_is_blank v = (v = HUndefined \<or> v = HNull \<or> v = HStr ''NIL'' \<or> v = HStr [])"

text \<open>
  One round of the merge loop on the working record at address \<open>c\<close>. Every
  \<^verbatim>\<open>concat\<close> returns a new sequence, which is then assigned to the field. The
  one-element sequences \<^verbatim>\<open>[val]\<close> and \<^verbatim>\<open>[existing[k]]\<close>, made only to be
  concatenated, are referred to by nothing afterwards and get no cell.
\<close>

definition h_mergeField :: "hval \<Rightarrow> addr \<Rightarrow> store \<Rightarrow> string \<Rightarrow> store" where
  "h_mergeField p c h k =
     (let val = h_get h p k; old = h_get h (HRef c) k
      in if h_is_blank old \<and> h_truthy val then h_set h c k val
         else if h_isArray h old \<and> h_isArray h val
           then (let (h', a) = alloc h (ArrCell (h_elems h old @ h_elems h val))
                 in h_set h' c k (HRef a))
         else if h_isArray h old \<and> h_truthy val \<and> \<not> h_isArray h val
           then (let (h', a) = alloc h (ArrCell (h_elems h old @ [val]))
                 in h_set h' c k (HRef a))
         else if \<not> h_isArray h old \<and> h_isArray h val
           then (let (h', a) = alloc h (ArrCell ((if h_truthy old then [old] else []) @ h_elems h val))
                 in h_set h' c k (HRef a))
         else h)"

definition h_mergeInto :: "addr \<Rightarrow> store \<Rightarrow> hval \<Rightarrow> store" where
  "h_mergeInto c h p = foldl (h_mergeField p c) h (map fst (h_own_props h p))"

text \<open>The \<^verbatim>\<open>Map\<close> holds, for each key, the address of the working record.\<close>

definition h_dedupeStep ::
  "store \<times> (string \<times> addr) list \<Rightarrow> hval \<Rightarrow> error + store \<times> (string \<times> addr) list" where
  "h_dedupeStep hm p =
     (case hm of (h, m) \<Rightarrow>
        if p = HNull \<or> p = HUndefined then Inl TypeError
        else (case h_patientKey h p of
                Inl e \<Rightarrow> Inl e
              | Inr key \<Rightarrow>
                  (case map_of m key of
                     None \<Rightarrow> (let (h', c) = h_clonePatient h p in Inr (h', m @ [(key, c)]))
                   | Some c \<Rightarrow> Inr (h_mergeInto c h p, m))))"

fun h_dedupeLoop ::
  "store \<times> (string \<times> addr) list \<Rightarrow> hval list \<Rightarrow> error + store \<times> (string \<times> addr) list" where
  "h_dedupeLoop hm [] = Inr hm"
| "h_dedupeLoop hm (p # ps) =
     (case h_dedupeStep hm p of Inl e \<Rightarrow> Inl e | Inr hm' \<Rightarrow> h_dedupeLoop hm' ps)"

text \<open>The result is a new sequence of the working records, in first-seen order.\<close>

definition h_dedupeAndMergePatients :: "store \<Rightarrow> hval \<Rightarrow> error + store \<times> addr" where
  "h_dedupeAndMergePatients h patients =
     (if h_isArray h patients
      then (case h_dedupeLoop (h, []) (h_elems h patients) of
              Inl e \<Rightarrow> Inl e
            | Inr (h', m) \<Rightarrow> Inr (alloc h' (ArrCell (map (\<lambda>kc. HRef (snd kc)) m))))
      else Inr (alloc h (ArrCell [])))"

text \<open>The addresses a value reaches, to the given depth.\<close>

fun children :: "cell \<Rightarrow> hval list" where
  "children (ArrCell xs) = xs"
| "children (ObjCell ps) = map snd ps"

fun reach :: "nat \<Rightarrow> store \<Rightarrow> hval \<Rightarrow> addr list" where
  "reach 0 h v = []"
| "reach (Suc n) h (HRef a) =
     (if a < length h then a # concat (map (reach n h) (children (h ! a))) else [])"
| "reach (Suc n) h v = []"

text \<open>
  A later store keeps an earlier one: it is at least as long, and every cell of the
  earlier store is still the same cell.
\<close>

definition keeps_store :: "store \<Rightarrow> store \<Rightarrow> bool" where
  "keeps_store h0 h = (length h0 \<le> length h \<and> take (length h0) h = h0)"

text \<open>
  A store for the examples: the raw record \<open>{"Patient Name":"A","Diagnosis":["x"]}\<close> at
  address 1, its row sequence at address 0, and the patient sequence at address 2; and
  the store after reconciliation, with the clone at address 3 and the returned
  sequence at address 4.
\<close>

definition example_store :: store where
  "example_store =
     [ArrCell [HStr ''x''],
      ObjCell [(''Patient Name'', HStr ''A''), (''Diagnosis'', HRef 0)],
      ArrCell [HRef 1]]"

definition reconciled_store :: store where
  "reconciled_store =
     example_store @
     [ObjCell [(''Patient Name'', HStr ''A''), (''Diagnosis'', HRef 0)],
      ArrCell [HRef 3]]"

section \<open>Evaluation of the model on concrete inputs\<close>

lemmas obj_eval = get_prop_def set_prop_def define_prop_def inherited_names_def array_index_def
  is_digit_def nat_of_digits_def digit_val_def js_or_def js_coalesce_def nullish_def Let_def

lemmas fee_eval = cleanFeeString_def repair_text_def trim_def is_ws_def strip_lead_noise_def
  is_lead_noise_def is_digit_def split_tail_follows_def collapse_zeros_def insert_decimals_def pad_decimals_def
  all_digits_def is_decimal_def ends_dot2_def

lemmas dedupe_eval = dedupeAndMergePatients_def dedupeStep_def clonePatient_def spread_def
  wrap_scalar_def mergeInto_def mergeField_def is_blank_def patientKey_def trim_def is_ws_def

lemmas assemble_eval = assembleResult_def buildItemFromResponse_def fallbackItem_def
  make_item_def ResultBlock_def normalizeTables_def flat_fallback_def

section \<open>Properties of FeeStringRepair\<close>

text \<open>
  Claim C9. The three examples: \<open>repair("2 00.00") = "200.00"\<close>,
  \<open>repair("000.00") = "0.00"\<close> and \<open>repair("12345") = "123.45"\<close>.
\<close>

theorem cleanFeeString_examples:
  "cleanFeeString (Str ''2 00.00'') = ''200.00''
   \<and> cleanFeeString (Str ''000.00'') = ''0.00''
   \<and> cleanFeeString (Str ''12345'') = ''123.45''"
  by (simp add: fee_eval)

text \<open>
  Claim C2, as stated, fails. Repairing \<open>"( 5"\<close> gives \<open>" 5"\<close>, which a second repair
  turns into \<open>"5.00"\<close>: the leading bracket is removed after the trim, and the space
  behind it stays. Repairing \<open>"00"\<close> gives \<open>"00.00"\<close>, which a second repair turns into
  \<open>"0.00"\<close>: the rule for leading zeros runs before the decimals are added.
\<close>

theorem cleanFeeString_not_idempotent:
  "cleanFeeString (Str (cleanFeeString (Str ''( 5''))) \<noteq> cleanFeeString (Str ''( 5'')
   \<and> cleanFeeString (Str ''( 5'') = '' 5''
   \<and> cleanFeeString (Str (cleanFeeString (Str ''00''))) \<noteq> cleanFeeString (Str ''00'')
   \<and> cleanFeeString (Str ''00'') = ''00.00''"
  by (simp add: fee_eval)

subsection \<open>Idempotence outside the two shapes\<close>

declare join_split_digit.simps(2) [simp del]
declare collapse_ws.simps(2) [simp del]

lemma digit_not_ws: "is_digit c \<Longrightarrow> \<not> is_ws c"
  by (auto simp: is_digit_def is_ws_def)

lemma dot_not_ws: "\<not> is_ws (CHR ''.'')"
  by (simp add: is_ws_def)

lemma dot_not_digit: "\<not> is_digit (CHR ''.'')"
  by (simp add: is_digit_def)

lemma zero_is_digit: "is_digit (CHR ''0'')"
  by (simp add: is_digit_def)

lemma is_dot2_elim: "is_dot2 t \<Longrightarrow> \<exists>d e. t = [CHR ''.'', d, e] \<and> is_digit d \<and> is_digit e"
  by (induction t rule: is_dot2.induct) auto

lemma is_money_tail_elim:
  "is_money_tail t \<Longrightarrow>
     \<exists>a b d e. t = [a, b, CHR ''.'', d, e] \<and> is_digit a \<and> is_digit b \<and> is_digit d \<and> is_digit e"
  by (induction t rule: is_money_tail.induct) auto

lemma money_tail_no_ws: "is_money_tail t \<Longrightarrow> \<forall>c\<in>set t. \<not> is_ws c"
  by (auto dest!: is_money_tail_elim simp: digit_not_ws dot_not_ws)

lemma money_tail_length: "is_money_tail t \<Longrightarrow> length t = 5"
  by (auto dest!: is_money_tail_elim)

lemma dropWhile_hd_not: "dropWhile P x \<noteq> [] \<Longrightarrow> \<not> P (hd (dropWhile P x))"
  by (metis hd_dropWhile)

lemma dropWhile_self: "x = [] \<or> \<not> P (hd x) \<Longrightarrow> dropWhile P x = x"
  by (cases x) auto

paragraph \<open>The whitespace collapse leaves a squeezed text.\<close>

lemma collapse_ws_ws: "is_ws c \<Longrightarrow> collapse_ws (c # cs) = CHR '' '' # collapse_ws (dropWhile is_ws cs)"
  by (simp add: collapse_ws.simps(2))

lemma collapse_ws_other: "\<not> is_ws c \<Longrightarrow> collapse_ws (c # cs) = c # collapse_ws cs"
  by (simp add: collapse_ws.simps(2))

lemma collapse_ws_hd:
  "x \<noteq> [] \<Longrightarrow> \<not> is_ws (hd x) \<Longrightarrow> collapse_ws x \<noteq> [] \<and> hd (collapse_ws x) = hd x"
  by (cases x) (auto simp: collapse_ws_other)

lemma collapse_ws_start: "x = [] \<or> \<not> is_ws (hd x) \<Longrightarrow> collapse_ws x = [] \<or> \<not> is_ws (hd (collapse_ws x))"
proof (cases "x = []")
  case True
  then show ?thesis by simp
next
  case False
  assume "x = [] \<or> \<not> is_ws (hd x)"
  with False have "\<not> is_ws (hd x)" by simp
  with collapse_ws_hd[OF False this] show ?thesis by simp
qed

lemma squeezed_collapse_ws: "squeezed (collapse_ws x)"
proof (induction x rule: collapse_ws.induct)
  case 1
  then show ?case by simp
next
  case (2 c cs)
  show ?case
  proof (cases "is_ws c")
    case True
    have "dropWhile is_ws cs = [] \<or> \<not> is_ws (hd (dropWhile is_ws cs))"
      using dropWhile_hd_not[of is_ws cs] by blast
    then have "collapse_ws (dropWhile is_ws cs) = [] \<or> \<not> is_ws (hd (collapse_ws (dropWhile is_ws cs)))"
      by (rule collapse_ws_start)
    moreover have "squeezed (collapse_ws (dropWhile is_ws cs))" using 2(1)[OF True] .
    moreover have "is_ws (CHR '' '')" by (simp add: is_ws_def)
    ultimately show ?thesis by (simp add: collapse_ws_ws[OF True])
  next
    case False
    with 2(2)[OF False] show ?thesis by (simp add: collapse_ws_other)
  qed
qed

lemma squeezed_fixed: "squeezed x \<Longrightarrow> collapse_ws x = x"
proof (induction x)
  case Nil
  then show ?case by simp
next
  case (Cons c cs)
  show ?case
  proof (cases "is_ws c")
    case True
    with Cons.prems have c: "c = CHR '' ''" and nx: "cs = [] \<or> \<not> is_ws (hd cs)" and sq: "squeezed cs"
      by auto
    from nx have "dropWhile is_ws cs = cs" by (rule dropWhile_self)
    with Cons.IH[OF sq] have "collapse_ws (c # cs) = CHR '' '' # cs"
      by (simp add: collapse_ws_ws[OF True])
    with c show ?thesis by simp
  next
    case False
    with Cons show ?thesis by (simp add: collapse_ws_other)
  qed
qed

lemma squeezed_tl: "squeezed (c # cs) \<Longrightarrow> squeezed cs"
  by simp

lemma squeezed_dropWhile: "squeezed x \<Longrightarrow> squeezed (dropWhile P x)"
proof (induction x)
  case Nil
  then show ?case by simp
next
  case (Cons c cs)
  from Cons.prems have "squeezed cs" by simp
  with Cons show ?case by (cases "P c") simp_all
qed

lemma no_ws_squeezed: "\<forall>c\<in>set x. \<not> is_ws c \<Longrightarrow> squeezed x"
  by (induction x) auto

paragraph \<open>The join of a split digit: first character, fixed points, idempotence.\<close>

lemma jsd_fire: "split_tail_follows c cs \<Longrightarrow> join_split_digit (c # cs) = c # dropWhile is_ws cs"
  by (simp add: join_split_digit.simps(2))

lemma jsd_skip: "\<not> split_tail_follows c cs \<Longrightarrow> join_split_digit (c # cs) = c # join_split_digit cs"
  by (simp add: join_split_digit.simps(2))

lemma jsd_Cons: "\<exists>t. join_split_digit (c # cs) = c # t"
  by (simp add: join_split_digit.simps(2))

lemma jsd_hd:
  assumes "x \<noteq> []"
  shows "join_split_digit x \<noteq> [] \<and> hd (join_split_digit x) = hd x"
proof (cases x)
  case Nil
  with assms show ?thesis by simp
next
  case (Cons c cs)
  obtain t where "join_split_digit (c # cs) = c # t" using jsd_Cons by blast
  with Cons show ?thesis by simp
qed

lemma fire_no_ws: "split_tail_follows c cs \<Longrightarrow> \<forall>d\<in>set (c # dropWhile is_ws cs). \<not> is_ws d"
  using money_tail_no_ws by (auto simp: split_tail_follows_def digit_not_ws)

lemma no_ws_no_fire: "\<forall>d\<in>set (c # cs). \<not> is_ws d \<Longrightarrow> \<not> split_tail_follows c cs"
  by (cases cs) (auto simp: split_tail_follows_def)

lemma jsd_no_ws: "\<forall>c\<in>set x. \<not> is_ws c \<Longrightarrow> join_split_digit x = x"
proof (induction x)
  case Nil
  then show ?case by simp
next
  case (Cons c cs)
  from Cons.prems have "\<not> split_tail_follows c cs" by (rule no_ws_no_fire)
  with Cons show ?case by (simp add: jsd_skip)
qed


lemma squeezed_jsd: "squeezed x \<Longrightarrow> squeezed (join_split_digit x)"
proof (induction x)
  case Nil
  then show ?case by simp
next
  case (Cons c cs)
  show ?case
  proof (cases "split_tail_follows c cs")
    case True
    from no_ws_squeezed[OF fire_no_ws[OF True]] show ?thesis by (simp only: jsd_fire[OF True])
  next
    case False
    from Cons.prems have sqcs: "squeezed cs" by simp
    have sq: "squeezed (join_split_digit cs)" using Cons.IH[OF sqcs] .
    have nx: "join_split_digit cs = [] \<or> \<not> is_ws (hd (join_split_digit cs))" if "is_ws c"
    proof (cases "cs = []")
      case True
      then show ?thesis by simp
    next
      case ne: False
      from Cons.prems that ne have "\<not> is_ws (hd cs)" by simp
      with jsd_hd[OF ne] show ?thesis by simp
    qed
    from Cons.prems have "is_ws c \<Longrightarrow> c = CHR '' ''" by simp
    with sq nx show ?thesis by (auto simp: jsd_skip[OF False])
  qed
qed

lemma jsd_changed_long: "join_split_digit y \<noteq> y \<Longrightarrow> 6 \<le> length (join_split_digit y)"
proof (induction y)
  case Nil
  then show ?case by simp
next
  case (Cons c cs)
  show ?case
  proof (cases "split_tail_follows c cs")
    case True
    then have "length (dropWhile is_ws cs) = 5"
      by (simp add: split_tail_follows_def money_tail_length)
    then show ?thesis by (simp add: jsd_fire[OF True])
  next
    case False
    with Cons.prems have "join_split_digit cs \<noteq> cs" by (simp add: jsd_skip)
    from Cons.IH[OF this] show ?thesis by (simp add: jsd_skip[OF False])
  qed
qed

lemma money_jsd: "is_money_tail (join_split_digit y) \<Longrightarrow> join_split_digit y = y"
  using jsd_changed_long[of y] money_tail_length[of "join_split_digit y"] by fastforce

lemma ws_no_fire: "is_ws w \<Longrightarrow> \<not> split_tail_follows w cs"
  using digit_not_ws by (auto simp: split_tail_follows_def)

lemma dropWhile_jsd: "dropWhile is_ws (join_split_digit cs) = join_split_digit (dropWhile is_ws cs)"
proof (induction cs)
  case Nil
  then show ?case by simp
next
  case (Cons w cs)
  show ?case
  proof (cases "is_ws w")
    case True
    with Cons show ?thesis by (simp add: jsd_skip[OF ws_no_fire[OF True]])
  next
    case False
    obtain t where t: "join_split_digit (w # cs) = w # t" using jsd_Cons by blast
    with False show ?thesis by simp
  qed
qed

lemma jsd_idem: "join_split_digit (join_split_digit x) = join_split_digit x"
proof (induction x)
  case Nil
  then show ?case by simp
next
  case (Cons c cs)
  show ?case
  proof (cases "split_tail_follows c cs")
    case True
    from jsd_no_ws[OF fire_no_ws[OF True]] show ?thesis by (simp add: jsd_fire[OF True])
  next
    case False
    have "\<not> split_tail_follows c (join_split_digit cs)"
    proof
      assume a: "split_tail_follows c (join_split_digit cs)"
      then have d: "is_digit c" and ne': "join_split_digit cs \<noteq> []"
        and w: "is_ws (hd (join_split_digit cs))"
        and m: "is_money_tail (dropWhile is_ws (join_split_digit cs))"
        by (simp_all add: split_tail_follows_def)
      from ne' have ne: "cs \<noteq> []" by auto
      with w have w': "is_ws (hd cs)" using jsd_hd[of cs] by simp
      from m have "is_money_tail (join_split_digit (dropWhile is_ws cs))"
        by (simp add: dropWhile_jsd)
      then have "is_money_tail (dropWhile is_ws cs)" using money_jsd by fastforce
      with d ne w' have "split_tail_follows c cs" by (simp add: split_tail_follows_def)
      with False show False by simp
    qed
    with Cons show ?thesis by (simp add: jsd_skip[OF False] jsd_skip)
  qed
qed

paragraph \<open>The last character through the trim, the collapse and the join.\<close>

lemma last_dropWhile_keep: "dropWhile P x \<noteq> [] \<Longrightarrow> last (dropWhile P x) = last x"
  by (induction x) (auto split: if_splits)

lemma trim_ends:
  assumes "trim t \<noteq> []"
  shows "\<not> is_ws (hd (trim t)) \<and> \<not> is_ws (last (trim t))"
proof -
  let ?y = "dropWhile is_ws t"
  let ?z = "dropWhile is_ws (rev ?y)"
  have u: "trim t = rev ?z" by (simp add: trim_def)
  with assms have z: "?z \<noteq> []" by simp
  have y: "?y \<noteq> []"
  proof
    assume "?y = []"
    then have "?z = []" by (simp only: rev.simps(1) dropWhile.simps(1))
    with z show False by blast
  qed
  have "last (trim t) = hd ?z" using z by (simp add: u last_rev)
  moreover have "\<not> is_ws (hd ?z)" using dropWhile_hd_not[OF z] .
  moreover have "hd (trim t) = last ?z" using z by (simp add: u hd_rev)
  moreover have "last ?z = last (rev ?y)" using last_dropWhile_keep[OF z] .
  moreover have "last (rev ?y) = hd ?y" using y by (simp add: last_rev)
  moreover have "\<not> is_ws (hd ?y)" using dropWhile_hd_not[OF y] .
  ultimately show ?thesis by simp
qed

lemma trim_fixed: "x \<noteq> [] \<Longrightarrow> \<not> is_ws (hd x) \<Longrightarrow> \<not> is_ws (last x) \<Longrightarrow> trim x = x"
proof -
  assume ne: "x \<noteq> []" and h: "\<not> is_ws (hd x)" and l: "\<not> is_ws (last x)"
  from ne h have a: "dropWhile is_ws x = x" by (simp add: dropWhile_self)
  from ne l have "\<not> is_ws (hd (rev x))" by (simp add: hd_rev)
  then have "dropWhile is_ws (rev x) = rev x" by (simp add: dropWhile_self)
  with a show ?thesis by (simp add: trim_def)
qed

lemma collapse_ws_last:
  "x \<noteq> [] \<Longrightarrow> \<not> is_ws (last x) \<Longrightarrow> collapse_ws x \<noteq> [] \<and> last (collapse_ws x) = last x"
proof (induction x rule: collapse_ws.induct)
  case 1
  then show ?case by simp
next
  case (2 c cs)
  show ?case
  proof (cases "is_ws c")
    case True
    with 2(4) have cs: "cs \<noteq> []" by auto
    have dne: "dropWhile is_ws cs \<noteq> []"
    proof
      assume "dropWhile is_ws cs = []"
      then have "\<forall>d\<in>set cs. is_ws d" by (simp add: dropWhile_eq_Nil_conv)
      with cs have "is_ws (last cs)" by simp
      with 2(4) cs show False by simp
    qed
    have ll: "last (dropWhile is_ws cs) = last cs" using last_dropWhile_keep[OF dne] .
    with 2(4) cs have "\<not> is_ws (last (dropWhile is_ws cs))" by simp
    from 2(1)[OF True dne this] ll cs show ?thesis by (simp add: collapse_ws_ws[OF True])
  next
    case False
    show ?thesis
    proof (cases "cs = []")
      case True
      then show ?thesis by (simp add: collapse_ws_other[OF False])
    next
      case ne: False
      with 2(4) have "\<not> is_ws (last cs)" by simp
      from 2(2)[OF False ne this] ne show ?thesis by (simp add: collapse_ws_other[OF False])
    qed
  qed
qed

lemma jsd_last:
  "x \<noteq> [] \<Longrightarrow> \<not> is_ws (last x) \<Longrightarrow> \<not> is_ws (last (join_split_digit x))"
proof (induction x)
  case Nil
  then show ?case by simp
next
  case (Cons c cs)
  show ?case
  proof (cases "split_tail_follows c cs")
    case True
    from fire_no_ws[OF True] have "\<forall>d\<in>set (c # dropWhile is_ws cs). \<not> is_ws d" .
    moreover have "last (c # dropWhile is_ws cs) \<in> set (c # dropWhile is_ws cs)"
      by (rule last_in_set) simp
    ultimately have "\<not> is_ws (last (c # dropWhile is_ws cs))" by blast
    then show ?thesis by (simp only: jsd_fire[OF True] not_False_eq_True)
  next
    case False
    show ?thesis
    proof (cases "cs = []")
      case True
      from jsd_skip[OF False] True have "join_split_digit (c # cs) = [c]" by simp
      with Cons.prems True show ?thesis by simp
    next
      case ne: False
      with Cons.prems have "\<not> is_ws (last cs)" by simp
      from Cons.IH[OF ne this] jsd_hd[OF ne] show ?thesis by (simp add: jsd_skip[OF False])
    qed
  qed
qed


paragraph \<open>The three digit rules leave a text with whitespace alone.\<close>

lemma zeros_split: "takeWhile (\<lambda>c. c = CHR ''0'') x @ dropWhile (\<lambda>c. c = CHR ''0'') x = x"
  by simp

lemma collapse_zeros_fire_no_ws:
  assumes "takeWhile (\<lambda>c. c = CHR ''0'') x \<noteq> []" and "is_dot2 (dropWhile (\<lambda>c. c = CHR ''0'') x)"
  shows "\<forall>c\<in>set x. \<not> is_ws c"
proof
  fix c assume "c \<in> set x"
  then have "c \<in> set (takeWhile (\<lambda>c. c = CHR ''0'') x) \<or> c \<in> set (dropWhile (\<lambda>c. c = CHR ''0'') x)"
    by (metis Un_iff set_append zeros_split)
  then show "\<not> is_ws c"
  proof
    assume "c \<in> set (takeWhile (\<lambda>c. c = CHR ''0'') x)"
    then have "c = CHR ''0''" by (rule set_takeWhileD[THEN conjunct2])
    then show ?thesis by (simp add: is_ws_def)
  next
    assume c: "c \<in> set (dropWhile (\<lambda>c. c = CHR ''0'') x)"
    from is_dot2_elim[OF assms(2)] obtain d e where
      "dropWhile (\<lambda>c. c = CHR ''0'') x = [CHR ''.'', d, e]" "is_digit d" "is_digit e" by blast
    with c show ?thesis by (auto simp: dot_not_ws digit_not_ws)
  qed
qed

lemma collapse_zeros_ws: "\<exists>c\<in>set x. is_ws c \<Longrightarrow> collapse_zeros x = x"
  using collapse_zeros_fire_no_ws[of x] by (auto simp: collapse_zeros_def Let_def)

lemma all_digits_no_ws: "all_digits x \<Longrightarrow> \<forall>c\<in>set x. \<not> is_ws c"
  by (auto simp: all_digits_def list_all_iff digit_not_ws)

lemma insert_decimals_ws: "\<exists>c\<in>set x. is_ws c \<Longrightarrow> insert_decimals x = x"
  using all_digits_no_ws[of x] by (auto simp: insert_decimals_def)

text \<open>The shape of a text that passes the test of the padding rule.\<close>

lemma is_decimal_shape:
  "is_decimal x \<longleftrightarrow>
     (\<exists>ds. all_digits ds \<and> (x = ds \<or> (\<exists>fs. all_digits fs \<and> x = ds @ CHR ''.'' # fs)))"
proof
  assume a: "is_decimal x"
  let ?ds = "takeWhile is_digit x" and ?t = "dropWhile is_digit x"
  from a have ds: "?ds \<noteq> []" and t: "?t = [] \<or> (hd ?t = CHR ''.'' \<and> all_digits (tl ?t))"
    by (simp_all add: is_decimal_def Let_def)
  have ad: "all_digits ?ds" using ds by (auto simp: all_digits_def list_all_iff dest: set_takeWhileD)
  have x: "x = ?ds @ ?t" by simp
  from t show "\<exists>ds. all_digits ds \<and> (x = ds \<or> (\<exists>fs. all_digits fs \<and> x = ds @ CHR ''.'' # fs))"
  proof
    assume "?t = []"
    with x have "x = ?ds" by (metis append_Nil2)
    with ad show ?thesis by metis
  next
    assume b: "hd ?t = CHR ''.'' \<and> all_digits (tl ?t)"
    then have "tl ?t \<noteq> []" unfolding all_digits_def by blast
    then have "?t \<noteq> []" by (metis list.sel(2))
    with b have "?t = CHR ''.'' # tl ?t" by (metis list.collapse)
    with x have "x = ?ds @ CHR ''.'' # tl ?t" by metis
    with ad b show ?thesis by metis
  qed
next
  assume "\<exists>ds. all_digits ds \<and> (x = ds \<or> (\<exists>fs. all_digits fs \<and> x = ds @ CHR ''.'' # fs))"
  then obtain ds where ds: "all_digits ds" and x: "x = ds \<or> (\<exists>fs. all_digits fs \<and> x = ds @ CHR ''.'' # fs)"
    by blast
  from ds have dd: "\<forall>c\<in>set ds. is_digit c" and ne: "ds \<noteq> []" by (auto simp: all_digits_def list_all_iff)
  from x show "is_decimal x"
  proof
    assume xd: "x = ds"
    from dd xd have tw: "takeWhile is_digit x = x" and dw: "dropWhile is_digit x = []"
      by simp_all
    show ?thesis unfolding is_decimal_def Let_def tw dw using ne xd by simp
  next
    assume "\<exists>fs. all_digits fs \<and> x = ds @ CHR ''.'' # fs"
    then obtain fs where fs: "all_digits fs" and xx: "x = ds @ CHR ''.'' # fs" by blast
    from dd have "takeWhile is_digit x = ds" "dropWhile is_digit x = CHR ''.'' # fs"
      by (simp_all add: xx takeWhile_append2 dropWhile_append2 dot_not_digit)
    with ne fs show ?thesis by (simp add: is_decimal_def Let_def)
  qed
qed

lemma is_decimal_no_ws:
  assumes "is_decimal x"
  shows "\<forall>c\<in>set x. \<not> is_ws c"
proof -
  from assms obtain ds where ds: "all_digits ds"
    and x: "x = ds \<or> (\<exists>fs. all_digits fs \<and> x = ds @ CHR ''.'' # fs)"
    unfolding is_decimal_shape by blast
  from x show ?thesis
  proof
    assume "x = ds"
    with all_digits_no_ws[OF ds] show ?thesis by simp
  next
    assume "\<exists>fs. all_digits fs \<and> x = ds @ CHR ''.'' # fs"
    then obtain fs where fs: "all_digits fs" and xx: "x = ds @ CHR ''.'' # fs" by blast
    from all_digits_no_ws[OF ds] all_digits_no_ws[OF fs] show ?thesis
      by (auto simp: xx dot_not_ws)
  qed
qed

lemma pad_decimals_ws: "\<exists>c\<in>set x. is_ws c \<Longrightarrow> pad_decimals x = x"
  using is_decimal_no_ws[of x] by (auto simp: pad_decimals_def)

lemma collapse_zeros_no_ws: "\<forall>c\<in>set x. \<not> is_ws c \<Longrightarrow> \<forall>c\<in>set (collapse_zeros x). \<not> is_ws c"
  by (auto simp: collapse_zeros_def Let_def is_ws_def dest: set_dropWhileD)

lemma insert_decimals_no_ws: "\<forall>c\<in>set x. \<not> is_ws c \<Longrightarrow> \<forall>c\<in>set (insert_decimals x). \<not> is_ws c"
  by (auto simp: insert_decimals_def dot_not_ws dest: in_set_takeD in_set_dropD)

lemma pad_decimals_no_ws: "\<forall>c\<in>set x. \<not> is_ws c \<Longrightarrow> \<forall>c\<in>set (pad_decimals x). \<not> is_ws c"
  by (auto simp: pad_decimals_def Let_def is_ws_def)


paragraph \<open>The padding rule is idempotent and never leaves bare digits.\<close>

lemma split_dot_no_dot: "CHR ''.'' \<notin> set x \<Longrightarrow> split_dot x = [x]"
  by (induction x) auto

lemma split_dot_at_dot: "CHR ''.'' \<notin> set ds \<Longrightarrow> split_dot (ds @ CHR ''.'' # fs) = ds # split_dot fs"
  by (induction ds) auto

lemma all_digits_no_dot: "all_digits ds \<Longrightarrow> CHR ''.'' \<notin> set ds"
  using dot_not_digit by (auto simp: all_digits_def list_all_iff)

lemma ends_dot2_append3: "is_dot2 [a, b, c] \<Longrightarrow> ends_dot2 (g @ [a, b, c])"
  by (simp add: ends_dot2_def)

lemma ends_dot2_has_dot:
  assumes "ends_dot2 x"
  shows "CHR ''.'' \<in> set x"
proof -
  from assms have "is_dot2 (drop (length x - 3) x)" by (simp add: ends_dot2_def)
  then obtain d e where "drop (length x - 3) x = [CHR ''.'', d, e]" using is_dot2_elim by blast
  then have "CHR ''.'' \<in> set (drop (length x - 3) x)" by simp
  then show ?thesis by (rule in_set_dropD)
qed

lemma pad_all_digits:
  assumes "all_digits g"
  shows "pad_decimals g = g @ ''.00''"
proof -
  from assms have dec: "is_decimal g" unfolding is_decimal_shape by blast
  from assms have nd: "CHR ''.'' \<notin> set g" by (rule all_digits_no_dot)
  with ends_dot2_has_dot have ne: "\<not> ends_dot2 g" by blast
  from nd have "split_dot g = [g]" by (rule split_dot_no_dot)
  with dec ne show ?thesis by (simp add: pad_decimals_def)
qed

lemma pad_cases: "pad_decimals g = g \<or> pad_decimals g = g @ ''.00'' \<or> pad_decimals g = g @ ''0''"
  by (simp add: pad_decimals_def Let_def)

lemma pad_not_all_digits: "\<not> all_digits (pad_decimals g)"
proof
  assume a: "all_digits (pad_decimals g)"
  show False
  proof (cases "all_digits g")
    case True
    from pad_all_digits[OF True] a have "all_digits (g @ ''.00'')" by simp
    then have "CHR ''.'' \<notin> set (g @ ''.00'')" by (rule all_digits_no_dot)
    then show False by simp
  next
    case False
    from pad_cases[of g] obtain y where y: "pad_decimals g = g @ y" by (metis append_Nil2)
    show False
    proof (cases "g = []")
      case True
      then have "pad_decimals g = []" by (simp add: pad_decimals_def is_decimal_def)
      with a show False by (simp add: all_digits_def)
    next
      case ne: False
      from a y have "list_all is_digit g" by (simp add: all_digits_def)
      with ne False show False by (simp add: all_digits_def)
    qed
  qed
qed

lemma insert_decimals_pad: "insert_decimals (pad_decimals g) = pad_decimals g"
  using pad_not_all_digits[of g] by (simp add: insert_decimals_def)

lemma pad_fixed_when_ends: "ends_dot2 x \<Longrightarrow> pad_decimals x = x"
  by (simp add: pad_decimals_def)

lemma pad_idem: "pad_decimals (pad_decimals g) = pad_decimals g"
proof (cases "is_decimal g \<and> \<not> ends_dot2 g")
  case False
  then have "pad_decimals g = g" by (auto simp: pad_decimals_def)
  then show ?thesis by simp
next
  case True
  then obtain ds where ds: "all_digits ds"
    and x: "g = ds \<or> (\<exists>fs. all_digits fs \<and> g = ds @ CHR ''.'' # fs)"
    unfolding is_decimal_shape by blast
  from x show ?thesis
  proof
    assume "g = ds"
    with ds have "pad_decimals g = g @ ''.00''" by (simp add: pad_all_digits)
    moreover have "ends_dot2 (g @ ''.00'')" by (rule ends_dot2_append3) (simp add: zero_is_digit)
    ultimately show ?thesis by (simp add: pad_fixed_when_ends)
  next
    assume "\<exists>fs. all_digits fs \<and> g = ds @ CHR ''.'' # fs"
    then obtain fs where fs: "all_digits fs" and g: "g = ds @ CHR ''.'' # fs" by blast
    have "split_dot g = [ds, fs]"
      by (simp add: g split_dot_at_dot[OF all_digits_no_dot[OF ds]]
          split_dot_no_dot[OF all_digits_no_dot[OF fs]])
    with True have p: "pad_decimals g = (if length fs = 1 then g @ ''0'' else g)"
      by (simp add: pad_decimals_def)
    show ?thesis
    proof (cases "length fs = 1")
      case False
      with p show ?thesis by simp
    next
      case one: True
      then obtain f where f: "fs = [f]" by (cases fs) auto
      with fs have fd: "is_digit f" by (simp add: all_digits_def)
      have "g @ ''0'' = ds @ [CHR ''.'', f, CHR ''0'']" by (simp add: g f)
      moreover have "ends_dot2 (ds @ [CHR ''.'', f, CHR ''0''])"
        by (rule ends_dot2_append3) (simp add: fd zero_is_digit)
      ultimately have "ends_dot2 (g @ ''0'')" by simp
      with p one show ?thesis by (simp add: pad_fixed_when_ends)
    qed
  qed
qed

paragraph \<open>The first character through the three digit rules.\<close>

lemma collapse_zeros_hd:
  assumes "x \<noteq> []"
  shows "collapse_zeros x \<noteq> [] \<and> hd (collapse_zeros x) = hd x"
proof (cases "takeWhile (\<lambda>c. c = CHR ''0'') x \<noteq> [] \<and> is_dot2 (dropWhile (\<lambda>c. c = CHR ''0'') x)")
  case False
  with assms show ?thesis by (auto simp: collapse_zeros_def Let_def)
next
  case True
  then have "hd x = hd (takeWhile (\<lambda>c. c = CHR ''0'') x)"
    by (metis hd_append2 zeros_split)
  moreover from True have "hd (takeWhile (\<lambda>c. c = CHR ''0'') x) \<in> set (takeWhile (\<lambda>c. c = CHR ''0'') x)"
    by simp
  then have "hd (takeWhile (\<lambda>c. c = CHR ''0'') x) = CHR ''0''"
    by (rule set_takeWhileD[THEN conjunct2])
  ultimately show ?thesis using True by (simp add: collapse_zeros_def Let_def)
qed

lemma insert_decimals_hd:
  assumes "x \<noteq> []"
  shows "insert_decimals x \<noteq> [] \<and> hd (insert_decimals x) = hd x"
  using assms by (auto simp: insert_decimals_def hd_append hd_take)

lemma pad_decimals_hd:
  assumes "x \<noteq> []"
  shows "pad_decimals x \<noteq> [] \<and> hd (pad_decimals x) = hd x"
  using assms pad_cases[of x] by auto

lemma collapse_zeros_fixed:
  assumes "\<not> surplus_zeros r"
  shows "collapse_zeros r = r"
proof (cases "takeWhile (\<lambda>c. c = CHR ''0'') r \<noteq> [] \<and> is_dot2 (dropWhile (\<lambda>c. c = CHR ''0'') r)")
  case False
  then show ?thesis by (auto simp: collapse_zeros_def Let_def)
next
  case True
  let ?zs = "takeWhile (\<lambda>c. c = CHR ''0'') r"
  from True assms have "length ?zs < 2" by (simp add: surplus_zeros_def)
  with True obtain z where z: "?zs = [z]" by (cases ?zs) auto
  then have "z \<in> set ?zs" by simp
  then have "z = CHR ''0''" by (rule set_takeWhileD[THEN conjunct2])
  with z have "r = CHR ''0'' # dropWhile (\<lambda>c. c = CHR ''0'') r"
    by (metis append_Cons append_Nil zeros_split)
  with True show ?thesis by (simp add: collapse_zeros_def Let_def)
qed


paragraph \<open>The second repair.\<close>

lemma cleanFeeString_empty: "cleanFeeString (Str []) = []"
  by (simp add: cleanFeeString_def trim_def)

lemma cleanFeeString_text:
  "x \<noteq> [] \<Longrightarrow> trim x = x \<Longrightarrow> cleanFeeString (Str x) = repair_text x"
  by (simp add: cleanFeeString_def)

lemma no_ws_trim:
  assumes "\<forall>c\<in>set x. \<not> is_ws c"
  shows "trim x = x"
proof (cases "x = []")
  case True
  then show ?thesis by (simp add: trim_def)
next
  case False
  then have "hd x \<in> set x" "last x \<in> set x" by simp_all
  with assms have "\<not> is_ws (hd x)" "\<not> is_ws (last x)" by blast+
  with False show ?thesis by (simp add: trim_fixed)
qed

lemma strip_fixed: "x = [] \<or> \<not> is_lead_noise (hd x) \<Longrightarrow> strip_lead_noise x = x"
  unfolding strip_lead_noise_def by (rule dropWhile_self)

lemma repair_text_again:
  assumes ne: "u \<noteq> []" and lu: "\<not> is_ws (last u)"
    and h1: "\<not> leading_ws (repair_text u)" and h2: "\<not> surplus_zeros (repair_text u)"
  shows "cleanFeeString (Str (repair_text u)) = repair_text u"
proof -
  define c where "c = collapse_ws u"
  define d where "d = strip_lead_noise c"
  define e where "e = join_split_digit d"
  define r where "r = repair_text u"
  have r: "r = pad_decimals (insert_decimals (collapse_zeros e))"
    by (simp add: r_def repair_text_def e_def d_def c_def)
  have sq_c: "squeezed c" unfolding c_def by (rule squeezed_collapse_ws)
  have last_c: "c \<noteq> [] \<and> last c = last u" unfolding c_def using ne lu by (rule collapse_ws_last)
  have sq_d: "squeezed d" unfolding d_def strip_lead_noise_def using sq_c by (rule squeezed_dropWhile)
  have hd_d: "d = [] \<or> \<not> is_lead_noise (hd d)"
    unfolding d_def strip_lead_noise_def using dropWhile_hd_not[of is_lead_noise c] by blast
  have last_d: "\<not> is_ws (last d)" if "d \<noteq> []"
  proof -
    from that have "last d = last c"
      unfolding d_def strip_lead_noise_def by (rule last_dropWhile_keep)
    with last_c lu show ?thesis by simp
  qed
  have sq_e: "squeezed e" unfolding e_def using sq_d by (rule squeezed_jsd)
  have e_d: "e \<noteq> [] \<Longrightarrow> d \<noteq> []" unfolding e_def by auto
  have hd_e: "e = [] \<or> \<not> is_lead_noise (hd e)"
  proof (cases "d = []")
    case True
    then show ?thesis by (simp add: e_def)
  next
    case False
    with hd_d jsd_hd[OF False] show ?thesis by (simp add: e_def)
  qed
  have hd_r: "r = [] \<or> \<not> is_lead_noise (hd r)"
  proof (cases "e = []")
    case True
    then show ?thesis
      by (simp add: r collapse_zeros_def insert_decimals_def pad_decimals_def is_decimal_def
          all_digits_def)
  next
    case False
    from collapse_zeros_hd[OF False] have 1: "collapse_zeros e \<noteq> []" "hd (collapse_zeros e) = hd e"
      by simp_all
    from insert_decimals_hd[OF 1(1)] 1(2)
    have 2: "insert_decimals (collapse_zeros e) \<noteq> []" "hd (insert_decimals (collapse_zeros e)) = hd e"
      by simp_all
    from pad_decimals_hd[OF 2(1)] 2(2) have "hd r = hd e" by (simp add: r)
    with hd_e False show ?thesis by simp
  qed
  have strip_r: "strip_lead_noise r = r" using hd_r by (rule strip_fixed)
  have pad_r: "pad_decimals r = r" unfolding r by (rule pad_idem)
  have ins_r: "insert_decimals r = r" unfolding r by (rule insert_decimals_pad)
  have goal: "cleanFeeString (Str r) = r"
  proof (cases "\<exists>x\<in>set e. is_ws x")
    case True
    then have re: "r = e"
      by (simp add: r collapse_zeros_ws insert_decimals_ws pad_decimals_ws)
    from True have ene: "e \<noteq> []" by auto
    from h1 have "\<not> is_ws (hd e)" using ene by (simp add: leading_ws_def r_def[symmetric] re)
    moreover have "\<not> is_ws (last e)"
      unfolding e_def using e_d[OF ene] last_d[OF e_d[OF ene]] by (rule jsd_last)
    ultimately have tr: "trim e = e" using ene by (simp add: trim_fixed)
    have "repair_text e = pad_decimals (insert_decimals (collapse_zeros (join_split_digit e)))"
      using strip_r by (simp add: repair_text_def squeezed_fixed[OF sq_e] re)
    also have "join_split_digit e = e" unfolding e_def by (rule jsd_idem)
    also have "pad_decimals (insert_decimals (collapse_zeros e)) = e"
      using True by (simp add: collapse_zeros_ws insert_decimals_ws pad_decimals_ws)
    finally have "repair_text e = e" .
    with cleanFeeString_text[OF ene tr] re show ?thesis by simp
  next
    case False
    then have "\<forall>x\<in>set e. \<not> is_ws x" by blast
    then have "\<forall>x\<in>set (collapse_zeros e). \<not> is_ws x" by (rule collapse_zeros_no_ws)
    then have "\<forall>x\<in>set (insert_decimals (collapse_zeros e)). \<not> is_ws x" by (rule insert_decimals_no_ws)
    then have nows: "\<forall>x\<in>set r. \<not> is_ws x" unfolding r by (rule pad_decimals_no_ws)
    show ?thesis
    proof (cases "r = []")
      case True
      then show ?thesis by (simp add: cleanFeeString_empty)
    next
      case rne: False
      have tr: "trim r = r" using nows by (rule no_ws_trim)
      have "repair_text r = pad_decimals (insert_decimals (collapse_zeros (join_split_digit r)))"
        using strip_r by (simp add: repair_text_def squeezed_fixed[OF no_ws_squeezed[OF nows]])
      also have "join_split_digit r = r" using nows by (rule jsd_no_ws)
      also have "collapse_zeros r = r" using h2 unfolding r_def by (rule collapse_zeros_fixed)
      also have "insert_decimals r = r" by (rule ins_r)
      also have "pad_decimals r = r" by (rule pad_r)
      finally have "repair_text r = r" .
      with cleanFeeString_text[OF rne tr] show ?thesis by simp
    qed
  qed
  then show ?thesis by (simp add: r_def)
qed

text \<open>
  Claim C2, amended. For every scalar input \<open>s\<close> (text, number, missing or empty),
  repairing the repaired value returns it unchanged, provided the repaired value neither
  starts with whitespace nor consists of two or more zeros, a dot and two digits.
\<close>

theorem cleanFeeString_idempotent_outside_two_shapes:
  assumes "\<not> leading_ws (cleanFeeString s)" and "\<not> surplus_zeros (cleanFeeString s)"
  shows "cleanFeeString (Str (cleanFeeString s)) = cleanFeeString s"
proof (cases "s = Undefined \<or> s = Null \<or> trim (JString s) = []")
  case True
  then have "cleanFeeString s = []" by (auto simp: cleanFeeString_def)
  then show ?thesis by (simp add: cleanFeeString_empty)
next
  case False
  then have ne: "trim (JString s) \<noteq> []" by simp
  from False have eq: "cleanFeeString s = repair_text (trim (JString s))"
    by (simp add: cleanFeeString_def)
  from trim_ends[OF ne] have "\<not> is_ws (last (trim (JString s)))" by simp
  from repair_text_again[OF ne this] assms show ?thesis by (simp add: eq)
qed

theorem cleanFeeString_idempotent_witness:
  "\<not> leading_ws (cleanFeeString (Str ''12345'')) \<and> \<not> surplus_zeros (cleanFeeString (Str ''12345''))
   \<and> cleanFeeString (Str (cleanFeeString (Str ''12345''))) = cleanFeeString (Str ''12345'')
   \<and> cleanFeeString (Str ''12345'') = ''123.45''"
proof -
  have ev: "cleanFeeString (Str ''12345'') = ''123.45''"
    by (simp add: fee_eval join_split_digit.simps collapse_ws.simps)
  have h1: "\<not> leading_ws (cleanFeeString (Str ''12345''))"
    by (simp add: ev leading_ws_def is_ws_def)
  have h2: "\<not> surplus_zeros (cleanFeeString (Str ''12345''))"
    by (simp add: ev surplus_zeros_def)
  from cleanFeeString_idempotent_outside_two_shapes[OF h1 h2] h1 h2 ev show ?thesis by simp
qed

paragraph \<open>The converse: lengths through the repair.\<close>

lemma length_collapse_ws: "length (collapse_ws x) \<le> length x"
proof (induction x rule: collapse_ws.induct)
  case 1
  then show ?case by simp
next
  case (2 c cs)
  show ?case
  proof (cases "is_ws c")
    case True
    have "length (dropWhile is_ws cs) \<le> length cs" by (rule length_dropWhile_le)
    with 2(1)[OF True] show ?thesis by (simp add: collapse_ws_ws[OF True])
  next
    case False
    with 2(2)[OF False] show ?thesis by (simp add: collapse_ws_other)
  qed
qed

lemma length_jsd: "length (join_split_digit x) \<le> length x"
proof (induction x)
  case Nil
  then show ?case by simp
next
  case (Cons c cs)
  show ?case
  proof (cases "split_tail_follows c cs")
    case True
    have "length (dropWhile is_ws cs) \<le> length cs" by (rule length_dropWhile_le)
    then show ?thesis by (simp add: jsd_fire[OF True])
  next
    case False
    with Cons show ?thesis by (simp add: jsd_skip)
  qed
qed

lemma length_trim_le: "length (trim x) \<le> length x"
proof -
  have "length (dropWhile is_ws (rev (dropWhile is_ws x))) \<le> length (rev (dropWhile is_ws x))"
    by (rule length_dropWhile_le)
  moreover have "length (dropWhile is_ws x) \<le> length x" by (rule length_dropWhile_le)
  ultimately show ?thesis by (simp add: trim_def)
qed

lemma length_trim_leading:
  assumes "leading_ws r"
  shows "length (trim r) < length r"
proof -
  from assms obtain w r' where r: "r = w # r'" and w: "is_ws w"
    by (cases r) (auto simp: leading_ws_def)
  have "length (dropWhile is_ws (rev (dropWhile is_ws r))) \<le> length (rev (dropWhile is_ws r))"
    by (rule length_dropWhile_le)
  moreover have "length (dropWhile is_ws r') \<le> length r'" by (rule length_dropWhile_le)
  ultimately show ?thesis using w by (simp add: trim_def r)
qed

lemma dropWhile_same_length: "length (dropWhile P x) = length x \<Longrightarrow> dropWhile P x = x"
proof (cases x)
  case Nil
  then show ?thesis by simp
next
  case (Cons a xs)
  assume l: "length (dropWhile P x) = length x"
  have "length (dropWhile P xs) \<le> length xs" by (rule length_dropWhile_le)
  with l Cons have "\<not> P a" by (cases "P a") auto
  with Cons show ?thesis by simp
qed

text \<open>A repaired text that starts with whitespace is shorter than the text it comes from.\<close>

lemma repair_text_leading_shorter:
  assumes ne: "u \<noteq> []" and hu: "\<not> is_ws (hd u)" and lw: "leading_ws (repair_text u)"
  shows "length (repair_text u) < length u"
proof -
  define c where "c = collapse_ws u"
  define d where "d = strip_lead_noise c"
  define e where "e = join_split_digit d"
  have r: "repair_text u = pad_decimals (insert_decimals (collapse_zeros e))"
    by (simp add: repair_text_def e_def d_def c_def)
  have ene: "e \<noteq> []"
  proof
    assume "e = []"
    then have "repair_text u = []"
      by (simp add: r collapse_zeros_def insert_decimals_def pad_decimals_def is_decimal_def
          all_digits_def)
    with lw show False by (simp add: leading_ws_def)
  qed
  from collapse_zeros_hd[OF ene] have 1: "collapse_zeros e \<noteq> []" "hd (collapse_zeros e) = hd e"
    by simp_all
  from insert_decimals_hd[OF 1(1)] 1(2)
  have 2: "insert_decimals (collapse_zeros e) \<noteq> []" "hd (insert_decimals (collapse_zeros e)) = hd e"
    by simp_all
  from pad_decimals_hd[OF 2(1)] 2(2) have "hd (repair_text u) = hd e" by (simp add: r)
  with lw have we: "is_ws (hd e)" by (simp add: leading_ws_def)
  with ene have "\<exists>x\<in>set e. is_ws x" using hd_in_set by blast
  then have re: "repair_text u = e"
    by (simp add: r collapse_zeros_ws insert_decimals_ws pad_decimals_ws)
  have dne: "d \<noteq> []" using ene unfolding e_def by auto
  from jsd_hd[OF dne] we have wd: "is_ws (hd d)" by (simp add: e_def)
  from collapse_ws_hd[OF ne hu] have cne: "c \<noteq> []" and hc: "hd c = hd u" by (simp_all add: c_def)
  have "d \<noteq> c" using wd hc hu by auto
  moreover have "length d \<le> length c" unfolding d_def strip_lead_noise_def by (rule length_dropWhile_le)
  moreover have "length d = length c \<Longrightarrow> d = c"
    unfolding d_def strip_lead_noise_def by (rule dropWhile_same_length)
  ultimately have "length d < length c" by fastforce
  moreover have "length c \<le> length u" unfolding c_def by (rule length_collapse_ws)
  moreover have "length e \<le> length d" unfolding e_def by (rule length_jsd)
  ultimately show ?thesis by (simp add: re)
qed


lemma cleanFeeString_changes_leading_ws:
  assumes "leading_ws r"
  shows "cleanFeeString (Str r) \<noteq> r"
proof (cases "trim r = []")
  case True
  then have "cleanFeeString (Str r) = []" by (simp add: cleanFeeString_def)
  with assms show ?thesis by (auto simp: leading_ws_def)
next
  case False
  then have eq: "cleanFeeString (Str r) = repair_text (trim r)" by (simp add: cleanFeeString_def)
  from trim_ends[OF False] have hu: "\<not> is_ws (hd (trim r))" by simp
  show ?thesis
  proof
    assume same: "cleanFeeString (Str r) = r"
    with eq assms have "leading_ws (repair_text (trim r))" by simp
    from repair_text_leading_shorter[OF False hu this] eq same
    have "length r < length (trim r)" by simp
    with length_trim_le[of r] show False by simp
  qed
qed

lemma cleanFeeString_changes_surplus_zeros:
  assumes "surplus_zeros r"
  shows "cleanFeeString (Str r) \<noteq> r"
proof -
  let ?zs = "takeWhile (\<lambda>c. c = CHR ''0'') r" and ?t = "dropWhile (\<lambda>c. c = CHR ''0'') r"
  from assms have lz: "2 \<le> length ?zs" and dt: "is_dot2 ?t" by (simp_all add: surplus_zeros_def)
  from lz have zne: "?zs \<noteq> []" by auto
  from is_dot2_elim[OF dt] obtain d e where t: "?t = [CHR ''.'', d, e]" and de: "is_digit d" "is_digit e"
    by blast
  have r: "r = ?zs @ ?t" by simp
  with zne have rne: "r \<noteq> []" by auto
  have nows: "\<forall>c\<in>set r. \<not> is_ws c" using zne dt by (rule collapse_zeros_fire_no_ws)
  have tr: "trim r = r" using nows by (rule no_ws_trim)
  have "hd r = hd ?zs" using zne by (metis hd_append2 r)
  moreover have "hd ?zs \<in> set ?zs" using zne by simp
  then have "hd ?zs = CHR ''0''" by (rule set_takeWhileD[THEN conjunct2])
  ultimately have "\<not> is_lead_noise (hd r)" by (simp add: is_lead_noise_def)
  then have st: "strip_lead_noise r = r" by (simp add: strip_fixed)
  have cz: "collapse_zeros r = CHR ''0'' # ?t" using zne dt by (simp add: collapse_zeros_def Let_def)
  have "CHR ''.'' \<in> set (CHR ''0'' # ?t)" by (simp add: t)
  then have "\<not> all_digits (CHR ''0'' # ?t)" using all_digits_no_dot by blast
  then have ins: "insert_decimals (CHR ''0'' # ?t) = CHR ''0'' # ?t" by (simp add: insert_decimals_def)
  have "CHR ''0'' # ?t = [CHR ''0''] @ [CHR ''.'', d, e]" by (simp add: t)
  moreover have "ends_dot2 ([CHR ''0''] @ [CHR ''.'', d, e])"
    by (rule ends_dot2_append3) (simp add: de)
  ultimately have "ends_dot2 (CHR ''0'' # ?t)" by simp
  then have pad: "pad_decimals (CHR ''0'' # ?t) = CHR ''0'' # ?t" by (rule pad_fixed_when_ends)
  have "repair_text r = CHR ''0'' # ?t"
    by (simp add: repair_text_def squeezed_fixed[OF no_ws_squeezed[OF nows]] st jsd_no_ws[OF nows]
        cz ins pad)
  with cleanFeeString_text[OF rne tr] have res: "cleanFeeString (Str r) = CHR ''0'' # ?t" by simp
  have "length (CHR ''0'' # ?t) = 4" by (simp add: t)
  moreover have "length r = length ?zs + 3" using t by (metis length_append r length_Cons list.size(3) numeral_3_eq_3)
  ultimately have "length (CHR ''0'' # ?t) \<noteq> length r" using lz by simp
  then have "CHR ''0'' # ?t \<noteq> r" by metis
  with res show ?thesis by simp
qed

text \<open>
  The two shapes are exactly the outputs a second repair changes: on each of them the
  second repair differs from the first.
\<close>

lemma cleanFeeString_changes_the_two_shapes:
  "leading_ws (cleanFeeString s) \<or> surplus_zeros (cleanFeeString s) \<Longrightarrow>
   cleanFeeString (Str (cleanFeeString s)) \<noteq> cleanFeeString s"
  using cleanFeeString_changes_leading_ws cleanFeeString_changes_surplus_zeros by blast

section \<open>Properties of RowNormalizer\<close>

text \<open>
  Claim C8, at a failing input. The claim says that the code and diagnosis components of
  a diagnosis row are trimmed text for a sequence as for a mapping. For the sequence
  \<open>["ICD-10", " J20 ", " Acute bronchitis "]\<close> the function returns the elements as they
  are, with their surrounding spaces, while the mapping branch trims the same values.
\<close>

theorem normalizeDiagRow_sequence_untrimmed:
  "normalizeDiagRow (Arr [Str ''ICD-10'', Str '' J20 '', Str '' Acute bronchitis ''])
     = [Str ''ICD-10'', Str '' J20 '', Str '' Acute bronchitis '']
   \<and> normalizeDiagRow (Obj [(''Type'', Str ''ICD-10''), (''Code'', Str '' J20 ''),
                             (''Diagnosis'', Str '' Acute bronchitis '')])
     = [Str ''ICD-10'', Str ''J20'', Str ''Acute bronchitis'']"
  by (simp add: normalizeDiagRow_def obj_eval trim_def is_ws_def string_of_nat.simps
      digit_char_def)

section \<open>Properties of TableShapeNormalizer\<close>

lemma replace_prop_values:
  "(k', v') \<in> set (replace_prop k v ps) \<Longrightarrow> v' = v \<or> (k', v') \<in> set ps"
  by (induction ps) (auto split: if_splits)

lemma insert_index_values:
  "(k', v') \<in> set (insert_index i k v ps) \<Longrightarrow> v' = v \<or> (k', v') \<in> set ps"
  by (induction ps) (auto split: if_splits option.splits)

lemma define_prop_values:
  "(k', v') \<in> set (define_prop ps k v) \<Longrightarrow> v' = v \<or> (k', v') \<in> set ps"
  unfolding define_prop_def
  by (auto split: if_splits option.splits dest: replace_prop_values insert_index_values)

lemma set_prop_values:
  "(k', v') \<in> set (set_prop ps k v) \<Longrightarrow> v' = v \<or> (k', v') \<in> set ps"
  unfolding set_prop_def
  by (auto split: if_splits dest: define_prop_values)

lemma section_rows_isArray: "isArray (section_rows rows)"
  by (cases rows) (simp_all add: section_rows_def)

lemma sections_fold_isArray:
  "\<forall>(sec, rows) \<in> set out. isArray rows \<Longrightarrow>
   \<forall>(sec, rows) \<in> set (foldl (\<lambda>out (sec, rows). set_prop out sec (section_rows rows)) out es).
      isArray rows"
proof (induction es arbitrary: out)
  case Nil
  then show ?case by simp
next
  case (Cons e es)
  obtain sec rows where e: "e = (sec, rows)" by (cases e)
  have "\<forall>(s, r) \<in> set (set_prop out sec (section_rows rows)). isArray r"
    using Cons.prems section_rows_isArray by (auto dest!: set_prop_values)
  from Cons.IH[OF this] show ?case by (simp add: e)
qed

lemma isArray_iff: "isArray v \<longleftrightarrow> (\<exists>xs. v = Arr xs)"
  by (cases v) simp_all

text \<open>
  Claim C10. Whatever the input is, the normalizer returns a mapping, and the value of
  every section of it is a sequence: never missing, a bare scalar or a mapping. The
  proof does not look at the order in which the keys of an index-keyed section are
  sorted.
\<close>

theorem normalizeTables_sections_are_sequences:
  "\<exists>ps. normalizeTables tables = Obj ps \<and> (\<forall>(sec, rows) \<in> set ps. \<exists>xs. rows = Arr xs)"
proof -
  have "\<forall>(sec, rows) \<in> set (set_prop [] ''Procedures'' tables). isArray rows" if "isArray tables"
    using that by (auto dest!: set_prop_values)
  moreover have "\<forall>(sec, rows) \<in> set (foldl (\<lambda>out (sec, rows). set_prop out sec (section_rows rows)) []
      (own_props tables)). isArray rows"
    by (rule sections_fold_isArray) simp
  ultimately show ?thesis
    by (auto simp: normalizeTables_def isArray_iff)
qed

theorem normalizeTables_sections_are_sequences_witness:
  "normalizeTables (Obj [(''Visit'', Str ''99213'')]) = Obj [(''Visit'', Arr [Str ''99213''])]
   \<and> (\<exists>xs. get_prop (normalizeTables (Obj [(''Visit'', Str ''99213'')])) ''Visit'' = Arr xs)"
proof -
  have ev: "normalizeTables (Obj [(''Visit'', Str ''99213'')]) = Obj [(''Visit'', Arr [Str ''99213''])]"
    by (simp add: normalizeTables_def section_rows_def set_prop_def define_prop_def array_index_def
        is_digit_def)
  obtain ps where ps: "normalizeTables (Obj [(''Visit'', Str ''99213'')]) = Obj ps"
    and all: "\<forall>(sec, rows) \<in> set ps. \<exists>xs. rows = Arr xs"
    using normalizeTables_sections_are_sequences[of "Obj [(''Visit'', Str ''99213'')]"] by blast
  from ps ev have "ps = [(''Visit'', Arr [Str ''99213''])]" by simp
  then have "(''Visit'', get_prop (Obj ps) ''Visit'') \<in> set ps"
    by (simp add: get_prop_def)
  with all have "\<exists>xs. get_prop (Obj ps) ''Visit'' = Arr xs" by blast
  with ps ev show ?thesis by simp
qed



section \<open>Properties of CodeHighlighter\<close>







lemma dot_not_digit': "is_digit c \<Longrightarrow> c \<noteq> CHR ''.''"
  by (auto simp: is_digit_def)
















































section \<open>Properties of PatientReconciler\<close>


subsection \<open>What the merge keeps\<close>



























text \<open>
  Claim C7, at a failing input. The claim names four reserved table fields whose bare
  scalar value the clone wraps as a one-element sequence. For the record
  \<open>{"Patient Name":"A","Diagnosis":"J20","Diagnosis (All Tables)":"J21"}\<close> the clone wraps
  the value of \<open>"Diagnosis (All Tables)"\<close> and leaves the value of \<open>"Diagnosis"\<close> a bare
  text.
\<close>

theorem clone_leaves_short_table_field_bare:
  "dedupeAndMergePatients
     (Arr [Obj [(''Patient Name'', Str ''A''), (''Diagnosis'', Str ''J20''),
                (''Diagnosis (All Tables)'', Str ''J21'')]])
   = Inr [Obj [(''Patient Name'', Str ''A''), (''Diagnosis'', Str ''J20''),
               (''Diagnosis (All Tables)'', Arr [Str ''J21''])]]"
  by (simp add: dedupe_eval obj_eval)

section \<open>Properties of the reconciliation on a store\<close>

lemmas store_eval = h_dedupeAndMergePatients_def h_dedupeStep_def h_clonePatient_def
  h_wrap_scalar_def h_mergeInto_def h_mergeField_def h_is_blank_def h_patientKey_def h_isArray_def
  h_elems_def h_own_props_def h_get_def h_is_mapping_def h_set_def alloc_def example_store_def
  reconciled_store_def

lemma example_reconciled:
  "h_dedupeAndMergePatients example_store (HRef 2) = Inr (reconciled_store, 4)"
  by (simp add: store_eval patientKey_def trim_def is_ws_def obj_eval)

text \<open>
  On the example the two models agree: the records the store model returns, read back
  from the store, are the records the value model returns.
\<close>

lemma example_agrees_with_value_model:
  "map (reify 2 reconciled_store) (h_elems reconciled_store (HRef 4))
     = [Obj [(''Patient Name'', Str ''A''), (''Diagnosis'', Arr [Str ''x''])]]
   \<and> dedupeAndMergePatients (reify 3 example_store (HRef 2))
     = Inr [Obj [(''Patient Name'', Str ''A''), (''Diagnosis'', Arr [Str ''x''])]]"
  by (simp add: h_elems_def reconciled_store_def example_store_def numeral_2_eq_2 numeral_3_eq_3
      dedupe_eval obj_eval)

text \<open>
  Claim C6, as stated, fails. After the reconciliation of the example store the clone at
  address 3 holds, under \<open>"Diagnosis"\<close>, the reference to the sequence at address 0, which
  is the row sequence of the raw record: the returned result and the raw input share
  this object.
\<close>

theorem reconcile_shares_nested_sequence:
  "h_dedupeAndMergePatients example_store (HRef 2) = Inr (reconciled_store, 4)
   \<and> h_get reconciled_store (HRef 3) ''Diagnosis'' = HRef 0
   \<and> h_get example_store (HRef 1) ''Diagnosis'' = HRef 0
   \<and> set (reach 3 example_store (HRef 2)) \<inter> set (reach 3 reconciled_store (HRef 4)) = {0}"
proof -
  have "reach 3 example_store (HRef 2) = [2, 1, 0]"
    by (simp add: example_store_def numeral_3_eq_3)
  moreover have "reach 3 reconciled_store (HRef 4) = [4, 3, 0]"
    by (simp add: reconciled_store_def example_store_def numeral_3_eq_3 nth_append)
  moreover have "h_get reconciled_store (HRef 3) ''Diagnosis'' = HRef 0"
    by (simp add: h_get_def h_own_props_def reconciled_store_def example_store_def)
  moreover have "h_get example_store (HRef 1) ''Diagnosis'' = HRef 0"
    by (simp add: h_get_def h_own_props_def example_store_def)
  ultimately show ?thesis using example_reconciled by simp
qed

lemma keeps_store_refl: "keeps_store h h"
  by (simp add: keeps_store_def)

lemma keeps_store_alloc:
  assumes "keeps_store h0 h" and "alloc h c = (h', a)"
  shows "keeps_store h0 h' \<and> a = length h \<and> length h' = Suc (length h)"
  using assms by (auto simp: keeps_store_def alloc_def)

lemma length_h_set: "length (h_set h c k v) = length h"
  by (simp add: h_set_def split: cell.splits)

lemma keeps_store_h_set:
  assumes "keeps_store h0 h" and "length h0 \<le> c"
  shows "keeps_store h0 (h_set h c k v)"
  using assms by (auto simp: keeps_store_def h_set_def split: cell.splits)

lemma keeps_store_wrap:
  assumes "keeps_store h0 h" and "length h0 \<le> c"
  shows "keeps_store h0 (h_wrap_scalar k c h) \<and> length h \<le> length (h_wrap_scalar k c h)"
proof (cases "h_truthy (h_get h (HRef c) k) \<and> \<not> h_isArray h (h_get h (HRef c) k)")
  case False
  with assms show ?thesis by (auto simp: h_wrap_scalar_def Let_def)
next
  case True
  obtain h' a where al: "alloc h (ArrCell [h_get h (HRef c) k]) = (h', a)" by (cases "alloc h (ArrCell [h_get h (HRef c) k])")
  from keeps_store_alloc[OF assms(1) al] have k: "keeps_store h0 h'" and l: "length h' = Suc (length h)"
    by simp_all
  from True al have "h_wrap_scalar k c h = h_set h' c k (HRef a)"
    by (simp add: h_wrap_scalar_def Let_def)
  with keeps_store_h_set[OF k assms(2)] l show ?thesis by (simp add: length_h_set)
qed

lemma keeps_store_clone:
  assumes "keeps_store h0 h" and "h_clonePatient h p = (h', c)"
  shows "keeps_store h0 h' \<and> length h0 \<le> c \<and> c < length h' \<and> length h \<le> length h'"
proof -
  let ?cell = "ObjCell (foldl (\<lambda>out (k, v). define_prop out k v) [] (h_own_props h p))"
  obtain h1 c1 where al: "alloc h ?cell = (h1, c1)" by (cases "alloc h ?cell")
  from keeps_store_alloc[OF assms(1) al] have k1: "keeps_store h0 h1" and c1: "c1 = length h"
    and l1: "length h1 = Suc (length h)" by simp_all
  from assms(1) c1 have le: "length h0 \<le> c1" by (simp add: keeps_store_def)
  let ?h2 = "h_wrap_scalar ''Procedure / Billing (All Tables)'' c1 h1"
  from keeps_store_wrap[OF k1 le] have k2: "keeps_store h0 ?h2" and l2: "length h1 \<le> length ?h2"
    by simp_all
  let ?h3 = "h_wrap_scalar ''Diagnosis (All Tables)'' c1 ?h2"
  from keeps_store_wrap[OF k2 le] have k3: "keeps_store h0 ?h3" and l3: "length ?h2 \<le> length ?h3"
    by simp_all
  from assms(2) al have "h' = ?h3" "c = c1" by (auto simp: h_clonePatient_def Let_def)
  with k3 le l1 l2 l3 c1 show ?thesis by simp
qed

lemma keeps_store_alloc_set:
  assumes "keeps_store h0 h" and "length h0 \<le> c"
  shows "keeps_store h0 (let (h', a) = alloc h cell in h_set h' c k (HRef a))
     \<and> length h \<le> length (let (h', a) = alloc h cell in h_set h' c k (HRef a))"
proof -
  obtain h' a where al: "alloc h cell = (h', a)" by (cases "alloc h cell")
  from keeps_store_alloc[OF assms(1) al] have k: "keeps_store h0 h'" and l: "length h' = Suc (length h)"
    by simp_all
  from keeps_store_h_set[OF k assms(2)] l al show ?thesis by (simp add: length_h_set)
qed

lemma keeps_store_mergeField:
  assumes "keeps_store h0 h" and "length h0 \<le> c"
  shows "keeps_store h0 (h_mergeField p c h k) \<and> length h \<le> length (h_mergeField p c h k)"
  unfolding h_mergeField_def Let_def
  using keeps_store_alloc_set[OF assms] keeps_store_h_set[OF assms] assms(1)
  by (simp add: length_h_set)

lemma keeps_store_mergeFold:
  assumes "keeps_store h0 h" and "length h0 \<le> c"
  shows "keeps_store h0 (foldl (h_mergeField p c) h ks)
     \<and> length h \<le> length (foldl (h_mergeField p c) h ks)"
  using assms(1)
proof (induction ks arbitrary: h)
  case Nil
  then show ?case by simp
next
  case (Cons k ks)
  from keeps_store_mergeField[OF Cons.prems assms(2)]
  have k1: "keeps_store h0 (h_mergeField p c h k)" and l1: "length h \<le> length (h_mergeField p c h k)"
    by simp_all
  from Cons.IH[OF k1] l1 show ?case by simp
qed

lemma keeps_store_mergeInto:
  assumes "keeps_store h0 h" and "length h0 \<le> c"
  shows "keeps_store h0 (h_mergeInto c h p) \<and> length h \<le> length (h_mergeInto c h p)"
  unfolding h_mergeInto_def using assms by (rule keeps_store_mergeFold)

text \<open>The working records are new objects, throughout the loop.\<close>

lemma dedupeStep_invariant:
  assumes "keeps_store h0 h" and "\<forall>kc\<in>set m. length h0 \<le> snd kc \<and> snd kc < length h"
    and "h_dedupeStep (h, m) p = Inr (h', m')"
  shows "keeps_store h0 h' \<and> (\<forall>kc\<in>set m'. length h0 \<le> snd kc \<and> snd kc < length h')"
proof -
  from assms(3) obtain key where key: "h_patientKey h p = Inr key"
    by (auto simp: h_dedupeStep_def split: if_splits sum.splits)
  show ?thesis
  proof (cases "map_of m key")
    case None
    obtain h1 c where cl: "h_clonePatient h p = (h1, c)" by (cases "h_clonePatient h p")
    from assms(3) None cl key have eq: "h' = h1" "m' = m @ [(key, c)]"
      by (auto simp: h_dedupeStep_def Let_def split: if_splits)
    from keeps_store_clone[OF assms(1) cl] assms(2) show ?thesis by (auto simp: eq)
  next
    case (Some c)
    then have "(key, c) \<in> set m" by (rule map_of_SomeD)
    with assms(2) have c: "length h0 \<le> c" by auto
    from assms(3) Some key have eq: "h' = h_mergeInto c h p" "m' = m"
      by (auto simp: h_dedupeStep_def Let_def split: if_splits)
    from keeps_store_mergeInto[OF assms(1) c, of p] assms(2) show ?thesis by (auto simp: eq)
  qed
qed

lemma dedupeLoop_invariant:
  assumes "keeps_store h0 h" and "\<forall>kc\<in>set m. length h0 \<le> snd kc \<and> snd kc < length h"
    and "h_dedupeLoop (h, m) ps = Inr (h', m')"
  shows "keeps_store h0 h' \<and> (\<forall>kc\<in>set m'. length h0 \<le> snd kc \<and> snd kc < length h')"
  using assms
proof (induction ps arbitrary: h m)
  case Nil
  then show ?case by simp
next
  case (Cons p ps)
  from Cons.prems(3) obtain h1 m1 where st: "h_dedupeStep (h, m) p = Inr (h1, m1)"
    and lp: "h_dedupeLoop (h1, m1) ps = Inr (h', m')"
    by (auto split: sum.splits)
  from dedupeStep_invariant[OF Cons.prems(1,2) st]
  have "keeps_store h0 h1" "\<forall>kc\<in>set m1. length h0 \<le> snd kc \<and> snd kc < length h1" by simp_all
  from Cons.IH[OF this lp] show ?case .
qed

text \<open>
  Claim C6, amended. Reconciliation writes to no object that existed before the call:
  every cell of the earlier store, so every raw patient record and every sequence or
  mapping below it, is the same cell afterwards. The returned sequence and each record
  in it are new objects. (The clones are shallow: what a field refers to is shared with
  the raw record, as the example shows.)
\<close>

theorem reconcile_writes_only_new_objects:
  assumes "h_dedupeAndMergePatients h patients = Inr (h', r)"
  shows "length h \<le> length h' \<and> take (length h) h' = h
     \<and> length h \<le> r \<and> r < length h'
     \<and> (\<forall>x\<in>set (h_elems h' (HRef r)). \<exists>c. x = HRef c \<and> length h \<le> c \<and> c < length h')"
proof (cases "h_isArray h patients")
  case False
  with assms have "h' = h @ [ArrCell []]" "r = length h"
    by (simp_all add: h_dedupeAndMergePatients_def alloc_def)
  then show ?thesis by (simp add: h_elems_def)
next
  case True
  with assms obtain h1 m where lp: "h_dedupeLoop (h, []) (h_elems h patients) = Inr (h1, m)"
    and res: "alloc h1 (ArrCell (map (\<lambda>kc. HRef (snd kc)) m)) = (h', r)"
    by (auto simp: h_dedupeAndMergePatients_def split: sum.splits)
  from dedupeLoop_invariant[OF keeps_store_refl _ lp]
  have k1: "keeps_store h h1" and fresh: "\<forall>kc\<in>set m. length h \<le> snd kc \<and> snd kc < length h1"
    by simp_all
  from keeps_store_alloc[OF k1 res] have k: "keeps_store h h'" and r: "r = length h1"
    and l: "length h' = Suc (length h1)" by simp_all
  from res have cell: "h' ! r = ArrCell (map (\<lambda>kc. HRef (snd kc)) m)"
    by (auto simp: alloc_def)
  from k1 have le: "length h \<le> length h1" by (simp add: keeps_store_def)
  have "\<forall>x\<in>set (h_elems h' (HRef r)). \<exists>c. x = HRef c \<and> length h \<le> c \<and> c < length h'"
    using fresh l r cell by (auto simp: h_elems_def)
  with k r l le show ?thesis by (simp add: keeps_store_def)
qed


theorem reconcile_writes_only_new_objects_witness:
  "h_dedupeAndMergePatients example_store (HRef 2) = Inr (reconciled_store, 4)
   \<and> take 3 reconciled_store = example_store
   \<and> h_elems reconciled_store (HRef 4) = [HRef 3]"
proof -
  have len: "length example_store = 3" by (simp add: example_store_def)
  from reconcile_writes_only_new_objects[OF example_reconciled] len
  have "take 3 reconciled_store = example_store" by simp
  moreover have "h_elems reconciled_store (HRef 4) = [HRef 3]"
    by (simp add: h_elems_def reconciled_store_def example_store_def)
  ultimately show ?thesis using example_reconciled by simp
qed

section \<open>Properties of ResultAssembler\<close>

text \<open>
  Claim C4, at a failing input. The claim says that assembly never raises. For the
  payload \<open>{"patients":[null]}\<close> the item is built, and the reconciliation of its
  patient sequence reads a field of \<^verbatim>\<open>null\<close>: the transform ends with a type error.
  The empty payload is assembled as the claim says, with no patient and two empty table
  sets.
\<close>

theorem assembleResult_raises_on_null_patient:
  "assembleResult (Obj [(''patients'', Arr [Null])]) ''scan.pdf'' = Inl TypeError
   \<and> assembleResult (Obj []) ''scan.pdf''
     = Inr \<lparr> er_fileName = Str ''scan.pdf'', er_patients = [], er_procedureTables = Obj [],
             er_diagnosisTables = Obj [],
             er_metadata = Obj [(''File Name'', Str ''scan.pdf'')] \<rparr>"
  by (simp add: assemble_eval dedupeAndMergePatients_def dedupeStep_def obj_eval)

end
